theory Spec2Isabelle
  imports Main "HOL-Library.Word"
begin

unbundle bit_operations_syntax

section \<open>Diagnostics: message categories, criteria and emission (dwarflint.c, lines 108-341)\<close>

text \<open>
  \<^verbatim>\<open>enum message_category\<close> is a bit set held in an unsigned 32-bit integer; its
  enumerators are declared in \<^verbatim>\<open>dwarflint.h\<close> through the \<^verbatim>\<open>MESSAGE_CATEGORIES\<close>
  list of \<^verbatim>\<open>MC (name, id)\<close> entries, category \<^verbatim>\<open>name\<close> being the bit \<^verbatim>\<open>1u << id\<close>.
  The identifier of the last entry of that list is what the code calls \<^verbatim>\<open>max\<close>; it is
  a parameter of the functions below that use it.
\<close>

type_synonym message_category = "32 word"

definition mc_none :: message_category where
  "mc_none = 0"

record message_term =
  positive :: message_category
  negative :: message_category

type_synonym message_criteria = "message_term list"

text \<open>\<^verbatim>\<open>message_accept\<close>: the first term that fits returns true.\<close>

fun message_accept :: "message_criteria \<Rightarrow> message_category \<Rightarrow> bool" where
  "message_accept [] cat = False"
| "message_accept (t # ts) cat =
     (if (positive t AND cat) = positive t \<and> (negative t AND cat) = 0 then True
      else message_accept ts cat)"

text \<open>
  \<^verbatim>\<open>message_cri_or\<close> appends a term; its \<^verbatim>\<open>assert\<close> aborts the program on a term
  whose masks intersect, which is the result \<open>None\<close>.
\<close>

definition message_cri_or :: "message_criteria \<Rightarrow> message_term \<Rightarrow> message_criteria option" where
  "message_cri_or cri term =
     (if (positive term AND negative term) = 0 then Some (cri @ [term]) else None)"

text \<open>
  \<^verbatim>\<open>message_cri_neg\<close>: the body of the loop \<^verbatim>\<open>for (size_t i = 0; i < max; ++i)\<close>, and the
  function. The loop runs over the identifiers \<open>0, \<dots>, max - 1\<close>.
\<close>

definition message_cri_neg_step ::
  "message_term \<Rightarrow> nat \<Rightarrow> message_criteria option \<Rightarrow> message_criteria option" where
  "message_cri_neg_step term i r =
     (case r of
        None \<Rightarrow> None
      | Some ret \<Rightarrow>
          (let mask = (push_bit i 1 :: message_category) in
           if (positive term AND mask) \<noteq> 0
           then message_cri_or ret \<lparr>positive = push_bit i 1, negative = mc_none\<rparr>
           else if (negative term AND mask) \<noteq> 0
           then message_cri_or ret \<lparr>positive = mc_none, negative = push_bit i 1\<rparr>
           else Some ret))"

definition message_cri_neg :: "nat \<Rightarrow> message_term \<Rightarrow> message_criteria option" where
  "message_cri_neg max_id term =
     (if (positive term AND negative term) \<noteq> 0 then None
      else fold (message_cri_neg_step term) [0..<max_id] (Some []))"

text \<open>
  \<^verbatim>\<open>message_cri_mul\<close> (the product of two criteria, contradictory products dropped) and
  \<^verbatim>\<open>message_cri_and_not\<close>, the only caller of \<^verbatim>\<open>message_cri_neg\<close>: it hands over the
  term with its two masks exchanged.
\<close>

definition message_cri_mul :: "message_criteria \<Rightarrow> message_criteria \<Rightarrow> message_criteria" where
  "message_cri_mul cri rhs =
     concat (map (\<lambda>t1. concat (map (\<lambda>t2.
       (let t = \<lparr>positive = positive t1 OR positive t2, negative = negative t1 OR negative t2\<rparr>
        in if (positive t AND negative t) \<noteq> 0 then [] else [t])) rhs)) cri)"

definition message_cri_and_not ::
  "nat \<Rightarrow> message_criteria \<Rightarrow> message_term \<Rightarrow> message_criteria option" where
  "message_cri_and_not max_id cri term =
     (case message_cri_neg max_id \<lparr>positive = negative term, negative = positive term\<rparr> of
        None \<Rightarrow> None
      | Some tmp \<Rightarrow> Some (message_cri_mul cri tmp))"

subsection \<open>The diagnostic coordinate and the output stream\<close>

datatype section_id =
  sec_info | sec_abbrev | sec_aranges | sec_pubnames | sec_pubtypes | sec_str
  | sec_line | sec_loc | sec_mac | sec_ranges | sec_locexpr | sec_rel | sec_rela

text \<open>
  \<^verbatim>\<open>struct where\<close>: a section, three keys (the value \<open>-1\<close> is "absent"), a reference to
  the site that the relocation or attribute belongs to, and the \<^verbatim>\<open>next\<close> link of the
  "caused by" chain.
\<close>

datatype where_site =
  Where (w_section: section_id) (w_addr1: "64 word") (w_addr2: "64 word") (w_addr3: "64 word")
        (w_ref: "where_site option") (w_next: "where_site option")

definition WHERE :: "section_id \<Rightarrow> where_site option \<Rightarrow> where_site" where
  "WHERE s nxt = Where s (- 1) (- 1) (- 1) None nxt"

fun where_reset_1 :: "where_site \<Rightarrow> 64 word \<Rightarrow> where_site" where
  "where_reset_1 (Where s a1 a2 a3 r n) addr = Where s addr (- 1) (- 1) r n"

fun where_reset_2 :: "where_site \<Rightarrow> 64 word \<Rightarrow> where_site" where
  "where_reset_2 (Where s a1 a2 a3 r n) addr = Where s a1 addr (- 1) r n"

fun where_reset_3 :: "where_site \<Rightarrow> 64 word \<Rightarrow> where_site" where
  "where_reset_3 (Where s a1 a2 a3 r n) addr = Where s a1 a2 addr r n"

text \<open>
  The assertions of \<^verbatim>\<open>where_fmt\<close> (lines 897-937), for a site with the plain formatting
  that the macro \<^verbatim>\<open>WHERE\<close> gives. \<open>section_keys\<close> is the number of keys for which the
  table \<^verbatim>\<open>section_names\<close> has a name and a format (lines 825-887). \<open>outer\<close> says that the
  call is the outer one (\<^verbatim>\<open>ptr == NULL\<close>); the call for the site referred to has a
  buffer. The process stops when an assertion fails.
\<close>

fun section_keys :: "section_id \<Rightarrow> nat" where
  "section_keys sec_info = 2"
| "section_keys sec_abbrev = 3"
| "section_keys sec_aranges = 2"
| "section_keys sec_pubnames = 2"
| "section_keys sec_pubtypes = 2"
| "section_keys sec_str = 1"
| "section_keys sec_line = 2"
| "section_keys sec_loc = 2"
| "section_keys sec_mac = 0"
| "section_keys sec_ranges = 2"
| "section_keys sec_locexpr = 1"
| "section_keys sec_rel = 2"
| "section_keys sec_rela = 2"

fun where_fmt_asserts :: "bool \<Rightarrow> where_site \<Rightarrow> bool" where
  "where_fmt_asserts outer (Where s a1 a2 a3 r n) =
     ((if a1 \<noteq> - 1 then 1 \<le> section_keys s else True)
      \<and> (if a2 \<noteq> - 1 then 2 \<le> section_keys s else True)
      \<and> (if a3 \<noteq> - 1 then 3 \<le> section_keys s else True)
      \<and> (if a3 \<noteq> - 1 then a2 \<noteq> - 1 else True)
      \<and> (if a2 \<noteq> - 1 then a1 \<noteq> - 1 else True)
      \<and> (if s = sec_rel \<or> s = sec_rela
          then (if outer
                then (case r of
                        None \<Rightarrow> False
                      | Some rf \<Rightarrow>
                          if w_section rf = sec_locexpr
                          then (case w_next rf of
                                  None \<Rightarrow> False
                                | Some nx \<Rightarrow> w_section nx \<noteq> sec_locexpr)
                          else True)
                else True)
          else (case r of None \<Rightarrow> True | Some rf \<Rightarrow> where_fmt_asserts False rf)))"

text \<open>The sites that \<^verbatim>\<open>where_fmt_chain\<close> visits: \<^verbatim>\<open>wh->next\<close>, its \<^verbatim>\<open>next\<close>, and so on.\<close>

fun where_chain :: "where_site \<Rightarrow> where_site list" where
  "where_chain (Where s a1 a2 a3 r None) = []"
| "where_chain (Where s a1 a2 a3 r (Some n)) = n # where_chain n"

datatype severity = Sev_error | Sev_warning

text \<open>
  What is printed on standard output. \<open>Diagnostic sev wh fmt\<close> is the line
  \<^verbatim>\<open>"<sev>: <where_fmt (wh)><message>"\<close> that \<^verbatim>\<open>wr_verror\<close> and \<^verbatim>\<open>wr_vwarning\<close> print with
  \<^verbatim>\<open>printf\<close> and \<^verbatim>\<open>vprintf\<close> (the text is the format string of the call without its
  final line feed; the values of its arguments are not part of the model); \<open>Caused_by sev wh\<close> is a line \<^verbatim>\<open>"<sev>: <where>: caused by this reference."\<close>
  of \<^verbatim>\<open>where_fmt_chain\<close>.
\<close>

datatype out_line =
  Diagnostic severity "where_site option" string
  | Caused_by severity where_site

fun is_Diagnostic :: "out_line \<Rightarrow> bool" where
  "is_Diagnostic (Diagnostic sev wh msg) = True"
| "is_Diagnostic (Caused_by sev wh) = False"

fun line_severity :: "out_line \<Rightarrow> severity" where
  "line_severity (Diagnostic sev wh msg) = sev"
| "line_severity (Caused_by sev wh) = sev"

text \<open>
  The process-wide variables: the two criteria and \<^verbatim>\<open>show_refs\<close> (set up in \<^verbatim>\<open>main\<close>
  before any file is read), \<^verbatim>\<open>static unsigned error_count\<close>, and standard output.
\<close>

record globals =
  warning_criteria :: message_criteria
  error_criteria :: message_criteria
  show_refs :: bool
  error_count :: "32 word"
  out :: "out_line list"

definition where_fmt_chain :: "where_site option \<Rightarrow> severity \<Rightarrow> globals \<Rightarrow> globals" where
  "where_fmt_chain wh sev g =
     (case wh of
        None \<Rightarrow> g
      | Some w \<Rightarrow> if show_refs g then g\<lparr>out := out g @ map (Caused_by sev) (where_chain w)\<rparr>
                  else g)"

definition wr_verror :: "where_site option \<Rightarrow> string \<Rightarrow> globals \<Rightarrow> globals" where
  "wr_verror wh msg g =
     (let g1 = g\<lparr>out := out g @ [Diagnostic Sev_error wh msg]\<rparr>;
          g2 = where_fmt_chain wh Sev_error g1
      in g2\<lparr>error_count := error_count g2 + 1\<rparr>)"

definition wr_vwarning :: "where_site option \<Rightarrow> string \<Rightarrow> globals \<Rightarrow> globals" where
  "wr_vwarning wh msg g =
     (let g1 = g\<lparr>out := out g @ [Diagnostic Sev_warning wh msg]\<rparr>;
          g2 = where_fmt_chain wh Sev_warning g1
      in g2\<lparr>error_count := error_count g2 + 1\<rparr>)"

definition wr_error :: "where_site option \<Rightarrow> string \<Rightarrow> globals \<Rightarrow> globals" where
  "wr_error wh msg g = wr_verror wh msg g"

definition wr_warning :: "where_site option \<Rightarrow> string \<Rightarrow> globals \<Rightarrow> globals" where
  "wr_warning wh msg g = wr_vwarning wh msg g"

definition wr_message ::
  "message_category \<Rightarrow> where_site option \<Rightarrow> string \<Rightarrow> globals \<Rightarrow> globals" where
  "wr_message category wh msg g =
     (if message_accept (warning_criteria g) category
      then (if message_accept (error_criteria g) category
            then wr_verror wh msg g
            else wr_vwarning wh msg g)
      else g)"

text \<open>The lines that a step \<open>f\<close> adds to the output of \<open>g\<close>.\<close>

definition emitted :: "(globals \<Rightarrow> globals) \<Rightarrow> globals \<Rightarrow> out_line list" where
  "emitted f g = drop (length (out g)) (out (f g))"

text \<open>
  The end of \<^verbatim>\<open>main\<close>: \<^verbatim>\<open>return error_count != 0;\<close>. A run of the checker, as far as
  the counter goes, is the sequence of its calls to the three entry points.
\<close>

definition exit_code :: "globals \<Rightarrow> int" where
  "exit_code g = (if error_count g \<noteq> 0 then 1 else 0)"

datatype diag_call =
  Call_error "where_site option" string
  | Call_warning "where_site option" string
  | Call_message message_category "where_site option" string

fun do_call :: "diag_call \<Rightarrow> globals \<Rightarrow> globals" where
  "do_call (Call_error wh msg) g = wr_error wh msg g"
| "do_call (Call_warning wh msg) g = wr_warning wh msg g"
| "do_call (Call_message cat wh msg) g = wr_message cat wh msg g"

definition run_calls :: "diag_call list \<Rightarrow> globals \<Rightarrow> globals" where
  "run_calls cs g = fold do_call cs g"

text \<open>
  The state in which \<^verbatim>\<open>main\<close> starts reading files: nothing printed, the counter at \<open>0\<close>.
\<close>

definition initial_globals :: "message_criteria \<Rightarrow> message_criteria \<Rightarrow> bool \<Rightarrow> globals" where
  "initial_globals wc ec refs =
     \<lparr>warning_criteria = wc, error_criteria = ec, show_refs = refs, error_count = 0, out = []\<rparr>"


definition chain_lines :: "severity \<Rightarrow> where_site option \<Rightarrow> globals \<Rightarrow> out_line list" where
  "chain_lines sev wh g =
     (case wh of None \<Rightarrow> []
      | Some w \<Rightarrow> if show_refs g then map (Caused_by sev) (where_chain w) else [])"

text \<open>
  The literals that one round of the loop of \<^verbatim>\<open>message_cri_neg\<close> appends for the
  category \<open>i\<close>.
\<close>

definition neg_literals :: "message_term \<Rightarrow> nat \<Rightarrow> message_criteria" where
  "neg_literals t i =
     (if bit (positive t) i then [\<lparr>positive = push_bit i 1, negative = mc_none\<rparr>]
      else if bit (negative t) i then [\<lparr>positive = mc_none, negative = push_bit i 1\<rparr>]
      else [])"
section \<open>Address records (dwarflint.c, lines 725-735 and 1784-1831)\<close>

text \<open>
  \<^verbatim>\<open>struct addr_record\<close> is a growing array of 64-bit addresses; the list is its first
  \<^verbatim>\<open>size\<close> elements. Indices are of type \<^verbatim>\<open>size_t\<close>; the array holds eight bytes per
  element in memory, so \<^verbatim>\<open>a + b\<close> in the binary search cannot wrap, and indices are
  natural numbers here.
\<close>

type_synonym addr_record = "64 word list"

text \<open>The loop of \<^verbatim>\<open>addr_record_find_addr\<close>, on the bounds \<open>a\<close> and \<open>b\<close>.\<close>

function addr_record_find_loop :: "addr_record \<Rightarrow> 64 word \<Rightarrow> nat \<Rightarrow> nat \<Rightarrow> nat" where
  "addr_record_find_loop ar addr a b =
     (if a < b then
        (let i = (a + b) div 2; v = ar ! i in
         if v > addr then addr_record_find_loop ar addr a i
         else if v < addr then addr_record_find_loop ar addr (i + 1) b
         else i)
      else a)"
  by pat_completeness auto
termination
  by (relation "measure (\<lambda>(ar, addr, a, b). b - a)") auto

declare addr_record_find_loop.simps [simp del]

definition addr_record_find_addr :: "addr_record \<Rightarrow> 64 word \<Rightarrow> nat" where
  "addr_record_find_addr ar addr = addr_record_find_loop ar addr 0 (length ar)"

definition addr_record_has_addr :: "addr_record \<Rightarrow> 64 word \<Rightarrow> bool" where
  "addr_record_has_addr ar addr =
     (if length ar = 0 then False
      else if addr < ar ! 0 then False
      else if addr > ar ! (length ar - 1) then False
      else (let a = addr_record_find_addr ar addr in a < length ar \<and> ar ! a = addr))"

text \<open>
  \<^verbatim>\<open>addr_record_add\<close>: when the address is not at the position found, the elements from
  that position on move up by one (\<^verbatim>\<open>memmove\<close>) and the address is stored there.
\<close>

definition addr_record_add :: "addr_record \<Rightarrow> 64 word \<Rightarrow> addr_record" where
  "addr_record_add ar addr =
     (let a = addr_record_find_addr ar addr in
      if a \<ge> length ar \<or> ar ! a \<noteq> addr then take a ar @ [addr] @ drop a ar
      else ar)"

section \<open>Reference records and compilation units (dwarflint.c, lines 743-779)\<close>

record ref =
  addr :: "64 word"
  who :: where_site

type_synonym ref_record = "ref list"

definition ref_record_add :: "ref_record \<Rightarrow> 64 word \<Rightarrow> where_site \<Rightarrow> ref_record" where
  "ref_record_add rr a referrer = rr @ [\<lparr>addr = a, who = referrer\<rparr>]"

text \<open>
  \<^verbatim>\<open>struct cu\<close>; the chain through \<^verbatim>\<open>next\<close> is a list of these records. The field
  \<^verbatim>\<open>struct where where\<close> is \<open>cu_where\<close>, \<^verbatim>\<open>offset\<close> is \<open>cu_offset\<close> and \<^verbatim>\<open>length\<close> is
  \<open>cu_length\<close>.
\<close>

record cu =
  cu_offset :: "64 word"
  cudie_offset :: "64 word"
  cu_length :: "64 word"
  address_size :: int
  low_pc :: "64 word"
  die_addrs :: addr_record
  die_refs :: ref_record
  loc_refs :: ref_record
  range_refs :: ref_record
  line_refs :: ref_record
  cu_where :: where_site
  has_arange :: bool
  has_pubnames :: bool
  has_pubtypes :: bool

text \<open>
  The record that \<^verbatim>\<open>check_info_structural\<close> allocates for a unit at section offset
  \<open>off\<close> (lines 3358-3366): \<^verbatim>\<open>xcalloc\<close> zeroes every field, then \<^verbatim>\<open>offset\<close>, \<^verbatim>\<open>where\<close>
  and \<^verbatim>\<open>low_pc\<close> are set.
\<close>

definition new_cu :: "64 word \<Rightarrow> cu" where
  "new_cu off =
     \<lparr>cu_offset = off, cudie_offset = 0, cu_length = 0, address_size = 0, low_pc = - 1,
      die_addrs = [], die_refs = [], loc_refs = [], range_refs = [], line_refs = [],
      cu_where = where_reset_1 (WHERE sec_info None) off,
      has_arange = False, has_pubnames = False, has_pubtypes = False\<rparr>"

text \<open>
  What \<^verbatim>\<open>read_die_chain\<close> does to \<^verbatim>\<open>cu->die_addrs\<close>: for each DIE that it walks (a DIE
  with a non-zero abbreviation code found in the table), at offset \<open>die_off\<close> in the
  unit, line 2732 runs \<^verbatim>\<open>addr_record_add (&cu->die_addrs, cu->offset + die_off)\<close>. The
  walk is given by the offsets of its DIEs, in the order of the walk.
\<close>

definition record_die :: "64 word \<Rightarrow> cu \<Rightarrow> cu" where
  "record_die die_off c = c\<lparr>die_addrs := addr_record_add (die_addrs c) (cu_offset c + die_off)\<rparr>"

definition walk_dies :: "64 word list \<Rightarrow> cu \<Rightarrow> cu" where
  "walk_dies die_offs c = fold record_die die_offs c"

section \<open>Relocations (dwarflint.c, lines 2251-2327)\<close>

text \<open>
  \<^verbatim>\<open>struct relocation\<close> and \<^verbatim>\<open>struct relocation_data\<close> are declared in \<^verbatim>\<open>dwarflint.h\<close>;
  the fields are those that \<^verbatim>\<open>read_rel\<close> and \<^verbatim>\<open>relocation_next\<close> use. The array \<^verbatim>\<open>rel\<close>
  with its \<^verbatim>\<open>size\<close> is a list (a null \<^verbatim>\<open>rel\<close> is the empty list), \<^verbatim>\<open>type\<close> is
  \<open>rel_kind\<close>. \<open>rel_beyond\<close> is the \<^verbatim>\<open>offset\<close> field of the array slot after the last
  entry, which \<^verbatim>\<open>where_from_reloc\<close> reads when the cursor stands at the end.
\<close>

record relocation =
  offset :: "64 word"
  invalid :: bool
  symndx :: int
  rel_type :: int
  addend :: "64 word"

datatype sh_type = SHT_REL | SHT_RELA

record relocation_data =
  rel :: "relocation list"
  rel_kind :: sh_type
  index :: nat
  rel_beyond :: "64 word"

datatype skip_type = skip_unref | skip_mismatched | skip_ok

definition where_from_reloc :: "relocation_data \<Rightarrow> where_site \<Rightarrow> where_site" where
  "where_from_reloc reloc reference =
     (case where_reset_1 (WHERE (if rel_kind reloc = SHT_REL then sec_rel else sec_rela) None)
             (if index reloc < length (rel reloc) then offset (rel reloc ! index reloc)
              else rel_beyond reloc) of
        Where s a1 a2 a3 r n \<Rightarrow> Where s a1 a2 a3 (Some reference) n)"

fun skip_message :: "skip_type \<Rightarrow> string" where
  "skip_message skip_unref = '': relocation targets unreferenced portion of the section.''"
| "skip_message skip_mismatched = '': relocation is mismatched.''"
| "skip_message skip_ok = ''''"

text \<open>
  The loop of \<^verbatim>\<open>relocation_next\<close>. The result is the entry returned (if any), the
  relocation data with the cursor moved, and the globals with what was printed.
  \<^verbatim>\<open>where_from_reloc\<close> is called after \<^verbatim>\<open>reloc->index++\<close>, so the first key of the site
  is the offset in the slot after the entry skipped. \<^verbatim>\<open>wr_error\<close> formats the site with
  \<^verbatim>\<open>where_fmt\<close> before it prints; the result \<open>None\<close> is the process stopped there by a
  failed assertion.
\<close>

function relocation_next_loop ::
  "relocation_data \<Rightarrow> 64 word \<Rightarrow> where_site \<Rightarrow> skip_type \<Rightarrow> globals
   \<Rightarrow> (relocation option \<times> relocation_data \<times> globals) option" where
  "relocation_next_loop reloc off wh st g =
     (if index reloc < length (rel reloc) then
        (let r = rel reloc ! index reloc in
         if offset r > off then Some (None, reloc, g)
         else
           (let reloc' = reloc\<lparr>index := index reloc + 1\<rparr> in
            if invalid r then relocation_next_loop reloc' off wh st g
            else if offset r < off then
              (if st \<noteq> skip_ok
               then (let reloc_where = where_reset_2 (where_from_reloc reloc' wh) (offset r) in
                     if where_fmt_asserts True reloc_where
                     then relocation_next_loop reloc' off wh st
                            (wr_error (Some reloc_where) (skip_message st) g)
                     else None)
               else relocation_next_loop reloc' off wh st g)
            else Some (Some r, reloc', g)))
      else Some (None, reloc, g))"
  by pat_completeness auto
termination
  by (relation "measure (\<lambda>(reloc, off, wh, st, g). length (rel reloc) - index reloc)") auto

declare relocation_next_loop.simps [simp del]

text \<open>
  \<^verbatim>\<open>relocation_next\<close> for a non-null \<^verbatim>\<open>reloc\<close>, and for a \<^verbatim>\<open>reloc\<close> that may be null.
\<close>

definition relocation_next ::
  "relocation_data \<Rightarrow> 64 word \<Rightarrow> where_site \<Rightarrow> skip_type \<Rightarrow> globals
   \<Rightarrow> (relocation option \<times> relocation_data \<times> globals) option" where
  "relocation_next reloc off wh st g =
     (if rel reloc = [] then Some (None, reloc, g) else relocation_next_loop reloc off wh st g)"

definition relocation_next_opt ::
  "relocation_data option \<Rightarrow> 64 word \<Rightarrow> where_site \<Rightarrow> skip_type \<Rightarrow> globals
   \<Rightarrow> (relocation option \<times> relocation_data option \<times> globals) option" where
  "relocation_next_opt reloc off wh st g =
     (case reloc of
        None \<Rightarrow> Some (None, None, g)
      | Some rd \<Rightarrow>
          (case relocation_next rd off wh st g of
             None \<Rightarrow> None
           | Some (r, rd', g') \<Rightarrow> Some (r, Some rd', g')))"


text \<open>
  \<^verbatim>\<open>struct sec\<close> (of \<^verbatim>\<open>dwarflint.h\<close>), as far as the checks below use it: the section tag
  and the relocations.
\<close>

record sec =
  sec_id :: section_id
  sec_rel :: relocation_data

definition relocation_skip_rest :: "sec \<Rightarrow> globals \<Rightarrow> (sec \<times> globals) option" where
  "relocation_skip_rest s g =
     (if rel (sec_rel s) \<noteq> []
      then (case relocation_next (sec_rel s) (- 1) (WHERE (sec_id s) None) skip_mismatched g of
              None \<Rightarrow> None
            | Some (r, rd, g') \<Rightarrow> Some (s\<lparr>sec_rel := rd\<rparr>, g'))
      else Some (s, g))"

text \<open>
  The property that the cursor stands at the first entry whose offset is not below \<open>off\<close>
  (or at the end when there is none), stated on the array for comparison with the code.
\<close>

definition points_at_first_not_below :: "relocation list \<Rightarrow> 64 word \<Rightarrow> nat \<Rightarrow> bool" where
  "points_at_first_not_below rs off i =
     (i \<le> length rs \<and> (i < length rs \<longrightarrow> off \<le> offset (rs ! i))
      \<and> (\<forall>j<i. offset (rs ! j) < off))"

text \<open>\<^verbatim>\<open>reloc->index++\<close>.\<close>

definition advance :: "relocation_data \<Rightarrow> relocation_data" where
  "advance reloc = reloc\<lparr>index := index reloc + 1\<rparr>"

fun line_where :: "out_line \<Rightarrow> where_site option" where
  "line_where (Diagnostic sev wh msg) = wh"
| "line_where (Caused_by sev wh) = Some wh"

fun line_message :: "out_line \<Rightarrow> string" where
  "line_message (Diagnostic sev wh msg) = msg"
| "line_message (Caused_by sev wh) = '': caused by this reference.''"

text \<open>
  The site at which \<^verbatim>\<open>relocation_next\<close> reports the valid entry number \<open>k\<close> that lies
  before the offset asked for, the line that it prints, the entries of \<open>[index, i')\<close>
  that are skipped in this way, and the part of a line that does not depend on the first
  key of its site: severity, text and second key.
\<close>

definition skip_site :: "relocation_data \<Rightarrow> where_site \<Rightarrow> nat \<Rightarrow> where_site" where
  "skip_site reloc wh k =
     where_reset_2 (where_from_reloc (reloc\<lparr>index := Suc k\<rparr>) wh) (offset (rel reloc ! k))"

definition skip_line :: "relocation_data \<Rightarrow> where_site \<Rightarrow> skip_type \<Rightarrow> nat \<Rightarrow> out_line" where
  "skip_line reloc wh st k = Diagnostic Sev_error (Some (skip_site reloc wh k)) (skip_message st)"

definition skipped_before :: "relocation_data \<Rightarrow> 64 word \<Rightarrow> nat \<Rightarrow> nat list" where
  "skipped_before reloc off i' =
     filter (\<lambda>k. \<not> invalid (rel reloc ! k) \<and> offset (rel reloc ! k) < off) [index reloc..<i']"

definition line_key :: "out_line \<Rightarrow> severity \<times> string \<times> 64 word option" where
  "line_key l = (line_severity l, line_message l, map_option w_addr2 (line_where l))"

text \<open>
  The comparison function that \<^verbatim>\<open>read_rel\<close> hands to \<^verbatim>\<open>qsort\<close> (lines 4647-4651): the
  difference of the two 64-bit offsets, returned as \<^verbatim>\<open>int\<close>, that is, cut to its low 32
  bits and read as a signed number.
\<close>

definition compare :: "relocation \<Rightarrow> relocation \<Rightarrow> int" where
  "compare a b = sint (ucast (offset a - offset b) :: 32 word)"

text \<open>Concrete data for the examples: entries, relocation data, a section, globals.\<close>

definition rel_entry :: "64 word \<Rightarrow> bool \<Rightarrow> relocation" where
  "rel_entry off bad = \<lparr>offset = off, invalid = bad, symndx = 1, rel_type = 1, addend = 0\<rparr>"

definition reloc_of :: "relocation list \<Rightarrow> relocation_data" where
  "reloc_of rs = \<lparr>rel = rs, rel_kind = SHT_RELA, index = 0, rel_beyond = 0\<rparr>"

definition sec_of :: "relocation list \<Rightarrow> sec" where
  "sec_of rs = \<lparr>sec_id = sec_info, sec_rel = reloc_of rs\<rparr>"

definition quiet_globals :: globals where
  "quiet_globals = initial_globals [\<lparr>positive = mc_none, negative = mc_none\<rparr>] [] False"

section \<open>Abbreviation tables (dwarflint.c, lines 679-712, 1532-1554, 1725-1737, 1761-1782)\<close>

record abbrev_attrib =
  at_name :: "16 word"
  at_form :: "8 word"
  at_where :: where_site

record abbrev =
  code :: "64 word"
  tag :: "16 word"
  has_children :: bool
  ab_where :: where_site
  used :: bool
  attribs :: "abbrev_attrib list"

text \<open>
  \<^verbatim>\<open>struct abbrev_table\<close>: the offset of the table in the section and the array \<^verbatim>\<open>abbr\<close>
  with its \<^verbatim>\<open>size\<close>; the chain through \<^verbatim>\<open>next\<close> is a list of tables.
\<close>

record abbrev_table =
  tbl_offset :: "64 word"
  abbr :: "abbrev list"

text \<open>
  \<^verbatim>\<open>abbrev_table_find_abbrev\<close>: the loop on the bounds \<open>a\<close> and \<open>b\<close>, returning the index of
  the abbreviation found, and the function, returning the abbreviation (\<open>None\<close> is the
  null pointer).
\<close>

function abbrev_table_find_loop :: "abbrev list \<Rightarrow> 64 word \<Rightarrow> nat \<Rightarrow> nat \<Rightarrow> nat option" where
  "abbrev_table_find_loop ab abbrev_code a b =
     (if a < b then
        (let i = (a + b) div 2 in
         if code (ab ! i) > abbrev_code then abbrev_table_find_loop ab abbrev_code a i
         else if code (ab ! i) < abbrev_code then abbrev_table_find_loop ab abbrev_code (i + 1) b
         else Some i)
      else None)"
  by pat_completeness auto
termination
  by (relation "measure (\<lambda>(ab, abbrev_code, a, b). b - a)") auto

declare abbrev_table_find_loop.simps [simp del]

definition abbrev_table_find_abbrev :: "abbrev_table \<Rightarrow> 64 word \<Rightarrow> abbrev option" where
  "abbrev_table_find_abbrev abbrevs abbrev_code =
     map_option (\<lambda>i. abbr abbrevs ! i)
       (abbrev_table_find_loop (abbr abbrevs) abbrev_code 0 (length (abbr abbrevs)))"

text \<open>
  The part of \<^verbatim>\<open>abbrev_table_load\<close> that decides whether an abbreviation is kept (lines
  1532-1554). \<open>cur\<close> is the abbreviation as the rest of the loop body fills it in, with
  its code and its site. A code that \<^verbatim>\<open>abbrev_table_find_abbrev\<close> finds in the table
  loaded so far is reported and the abbreviation goes to the local \<^verbatim>\<open>fake\<close>; otherwise
  it is appended to the table.
\<close>

definition abbrev_table_store ::
  "abbrev \<Rightarrow> abbrev_table \<times> globals \<Rightarrow> abbrev_table \<times> globals" where
  "abbrev_table_store cur sg =
     (case sg of (section, g) \<Rightarrow>
        (case abbrev_table_find_abbrev section (code cur) of
           Some original \<Rightarrow>
             (section,
              wr_error (Some (ab_where cur)) '': duplicate abbrev code %ld; already defined at %s.'' g)
         | None \<Rightarrow> (section\<lparr>abbr := abbr section @ [cur]\<rparr>, g)))"

text \<open>
  Loading one table: a new table at offset \<open>off\<close>, then the abbreviations of the table
  in the order of the section.
\<close>

definition abbrev_table_load_one ::
  "64 word \<Rightarrow> abbrev list \<Rightarrow> globals \<Rightarrow> abbrev_table \<times> globals" where
  "abbrev_table_load_one off abbrevs g =
     fold abbrev_table_store abbrevs (\<lparr>tbl_offset = off, abbr = []\<rparr>, g)"

text \<open>
  The comparison function \<^verbatim>\<open>cmp_abbrs\<close> (lines 1727-1732) returns the difference of the
  two 64-bit codes as \<^verbatim>\<open>int\<close>: its low 32 bits, read as a signed number.
\<close>

definition cmp_abbrs :: "abbrev \<Rightarrow> abbrev \<Rightarrow> int" where
  "cmp_abbrs aa bb = sint (ucast (code aa - code bb) :: 32 word)"

text \<open>
  \<^verbatim>\<open>qsort\<close> is the C library's. Where the comparison function orders the elements of the
  array consistently, every sorting algorithm gives the same array up to the order of
  elements that compare equal; for such arrays \<^verbatim>\<open>qsort\<close> is given here as insertion sort
  under the comparison function: an element goes before the first element that the
  function does not find smaller. Nothing is said of what the C library leaves when the
  answers of the function contradict each other.
\<close>

fun qsort_insert :: "('a \<Rightarrow> 'a \<Rightarrow> int) \<Rightarrow> 'a \<Rightarrow> 'a list \<Rightarrow> 'a list" where
  "qsort_insert cmp x [] = [x]"
| "qsort_insert cmp x (y # ys) = (if cmp x y \<le> 0 then x # y # ys else y # qsort_insert cmp x ys)"

definition qsort :: "('a \<Rightarrow> 'a \<Rightarrow> int) \<Rightarrow> 'a list \<Rightarrow> 'a list" where
  "qsort cmp xs = foldr (qsort_insert cmp) xs []"

text \<open>The closing loop of \<^verbatim>\<open>abbrev_table_load\<close> (lines 1725-1737), for one table.\<close>

definition abbrev_table_sort :: "abbrev_table \<Rightarrow> abbrev_table" where
  "abbrev_table_sort section = section\<lparr>abbr := qsort cmp_abbrs (abbr section)\<rparr>"

text \<open>An abbreviation with the given code, defined at the given offset of table \<open>0\<close>.\<close>

definition abbrev_at :: "64 word \<Rightarrow> 64 word \<Rightarrow> abbrev" where
  "abbrev_at c off =
     \<lparr>code = c, tag = 0x24, has_children = False,
      ab_where = where_reset_2 (where_reset_1 (WHERE sec_abbrev None) 0) off,
      used = False, attribs = []\<rparr>"

section \<open>The categories and the criteria that \<^verbatim>\<open>main\<close> starts from\<close>

text \<open>
  Modelled from the spec: the enumerators of \<^verbatim>\<open>enum message_category\<close>, whose declaration
  (the \<^verbatim>\<open>MESSAGE_CATEGORIES\<close> list of \<^verbatim>\<open>dwarflint.h\<close>) is not among the sources. Section 3
  of the specification gives the closed vocabulary: the impact levels 1 to 4, accuracy
  bloat and suboptimal, the tags \<^verbatim>\<open>info\<close>, \<^verbatim>\<open>abbrevs\<close>, \<^verbatim>\<open>aranges\<close>, \<^verbatim>\<open>pubtables\<close>, \<^verbatim>\<open>loc\<close>,
  \<^verbatim>\<open>ranges\<close>, \<^verbatim>\<open>line\<close>, \<^verbatim>\<open>strings\<close>, \<^verbatim>\<open>elf\<close>, \<^verbatim>\<open>reloc\<close>, \<^verbatim>\<open>header\<close>, \<^verbatim>\<open>die_rel\<close>,
  \<^verbatim>\<open>die_other\<close>, \<^verbatim>\<open>leb128\<close>, \<^verbatim>\<open>pubtypes\<close>, and \<^verbatim>\<open>error\<close>. Each is one bit; the bits are
  numbered here in the order of that list.
\<close>

definition mc_impact_1 :: message_category where "mc_impact_1 = push_bit 0 1"
definition mc_impact_2 :: message_category where "mc_impact_2 = push_bit 1 1"
definition mc_impact_3 :: message_category where "mc_impact_3 = push_bit 2 1"
definition mc_acc_bloat :: message_category where "mc_acc_bloat = push_bit 4 1"
definition mc_abbrevs :: message_category where "mc_abbrevs = push_bit 7 1"
definition mc_aranges :: message_category where "mc_aranges = push_bit 8 1"
definition mc_pubtables :: message_category where "mc_pubtables = push_bit 9 1"
definition mc_loc :: message_category where "mc_loc = push_bit 10 1"
definition mc_line :: message_category where "mc_line = push_bit 12 1"
definition mc_strings :: message_category where "mc_strings = push_bit 13 1"
definition mc_elf :: message_category where "mc_elf = push_bit 14 1"
definition mc_reloc :: message_category where "mc_reloc = push_bit 15 1"
definition mc_header :: message_category where "mc_header = push_bit 16 1"
definition mc_leb128 :: message_category where "mc_leb128 = push_bit 19 1"
definition mc_pubtypes :: message_category where "mc_pubtypes = push_bit 20 1"



section \<open>Compilation units of \<^verbatim>\<open>.debug_info\<close> (dwarflint.c, lines 2147-2200, 3276-3289, 3449-3515)\<close>









text \<open>The site of the DIE at the given offset in the unit at offset \<open>0\<close>.\<close>

definition die_site :: "64 word \<Rightarrow> where_site" where
  "die_site off = where_reset_2 (where_reset_1 (WHERE sec_info None) 0) off"

section \<open>The read cursor\<close>

text \<open>
  Modelled from the spec: the read cursor of sections 3 and 4.1 of the specification,
  whose code (\<^verbatim>\<open>dwarflint-readctx.c\<close>) is not among the sources. A cursor is the triple
  (begin, ptr, end) of positions in the bytes of a section, with
  \<open>begin \<le> ptr \<le> end\<close>, and the byte order of the file. Every reader gives the value
  with the cursor moved, or \<open>None\<close> for failure, which leaves the cursor alone.
\<close>

record read_ctx =
  rc_data :: "8 word list"
  rc_begin :: nat
  rc_ptr :: nat
  rc_end :: nat
  rc_little_endian :: bool

definition read_ctx_eof :: "read_ctx \<Rightarrow> bool" where
  "read_ctx_eof ctx = (rc_ptr ctx \<ge> rc_end ctx)"

definition read_ctx_need_data :: "read_ctx \<Rightarrow> nat \<Rightarrow> bool" where
  "read_ctx_need_data ctx n = (n \<le> rc_end ctx - rc_ptr ctx)"

definition read_ctx_get_offset :: "read_ctx \<Rightarrow> 64 word" where
  "read_ctx_get_offset ctx = of_nat (rc_ptr ctx - rc_begin ctx)"

definition read_ctx_init_sub :: "read_ctx \<Rightarrow> nat \<Rightarrow> nat \<Rightarrow> read_ctx option" where
  "read_ctx_init_sub parent b e =
     (if rc_begin parent \<le> b \<and> b \<le> e \<and> e \<le> rc_end parent
      then Some (parent\<lparr>rc_begin := b, rc_ptr := b, rc_end := e\<rparr>)
      else None)"

definition read_ctx_read_ubyte :: "read_ctx \<Rightarrow> (8 word \<times> read_ctx) option" where
  "read_ctx_read_ubyte ctx =
     (if read_ctx_need_data ctx 1
      then Some (rc_data ctx ! rc_ptr ctx, ctx\<lparr>rc_ptr := rc_ptr ctx + 1\<rparr>)
      else None)"

text \<open>
  A cursor over the whole of a section's data (\<^verbatim>\<open>read_ctx_init\<close>), and \<^verbatim>\<open>read_ctx_skip\<close>,
  which moves the cursor over \<open>n\<close> bytes when that many are left.
\<close>

definition read_ctx_init :: "8 word list \<Rightarrow> bool \<Rightarrow> read_ctx" where
  "read_ctx_init bytes little =
     \<lparr>rc_data = bytes, rc_begin = 0, rc_ptr = 0, rc_end = length bytes, rc_little_endian = little\<rparr>"


text \<open>The fixed-width readers: \<open>n\<close> bytes in the byte order of the file.\<close>

definition bytes_value :: "bool \<Rightarrow> 8 word list \<Rightarrow> 64 word" where
  "bytes_value little bs =
     foldl (\<lambda>acc b. push_bit 8 acc OR ucast b) 0 (if little then rev bs else bs)"

definition read_ctx_read_nubyte :: "nat \<Rightarrow> read_ctx \<Rightarrow> (64 word \<times> read_ctx) option" where
  "read_ctx_read_nubyte n ctx =
     (if read_ctx_need_data ctx n
      then Some (bytes_value (rc_little_endian ctx) (take n (drop (rc_ptr ctx) (rc_data ctx))),
                 ctx\<lparr>rc_ptr := rc_ptr ctx + n\<rparr>)
      else None)"

definition read_ctx_read_2ubyte :: "read_ctx \<Rightarrow> (64 word \<times> read_ctx) option" where
  "read_ctx_read_2ubyte = read_ctx_read_nubyte 2"

definition read_ctx_read_4ubyte :: "read_ctx \<Rightarrow> (64 word \<times> read_ctx) option" where
  "read_ctx_read_4ubyte = read_ctx_read_nubyte 4"

definition read_ctx_read_8ubyte :: "read_ctx \<Rightarrow> (64 word \<times> read_ctx) option" where
  "read_ctx_read_8ubyte = read_ctx_read_nubyte 8"

definition read_ctx_read_offset :: "read_ctx \<Rightarrow> bool \<Rightarrow> (64 word \<times> read_ctx) option" where
  "read_ctx_read_offset ctx is_64 =
     (if is_64 then read_ctx_read_8ubyte ctx else read_ctx_read_4ubyte ctx)"

text \<open>
  The LEB128 readers: seven bits of value in each byte, the lowest first, up to the first
  byte without the top bit. The result is the value, the bloat flag (the encoding is
  longer than the value needs: the last byte adds nothing) and the cursor.
\<close>

function uleb128_loop ::
  "read_ctx \<Rightarrow> nat \<Rightarrow> 64 word \<Rightarrow> (64 word \<times> bool \<times> read_ctx) option" where
  "uleb128_loop ctx shift result =
     (case read_ctx_read_ubyte ctx of
        None \<Rightarrow> None
      | Some (byte, ctx') \<Rightarrow>
          (let result' = result OR push_bit shift (ucast (byte AND 0x7f)) in
           if byte AND 0x80 = 0 then Some (result', byte AND 0x7f = 0 \<and> shift > 0, ctx')
           else uleb128_loop ctx' (shift + 7) result'))"
  by pat_completeness auto
termination
  by (relation "measure (\<lambda>(ctx, shift, result). rc_end ctx - rc_ptr ctx)")
     (auto simp: read_ctx_read_ubyte_def read_ctx_need_data_def split: if_splits)

declare uleb128_loop.simps [simp del]

definition read_ctx_read_uleb128 :: "read_ctx \<Rightarrow> (64 word \<times> bool \<times> read_ctx) option" where
  "read_ctx_read_uleb128 ctx = uleb128_loop ctx 0 0"

function sleb128_loop ::
  "read_ctx \<Rightarrow> nat \<Rightarrow> 64 word \<Rightarrow> 8 word \<Rightarrow> (64 word \<times> bool \<times> read_ctx) option" where
  "sleb128_loop ctx shift result prev =
     (case read_ctx_read_ubyte ctx of
        None \<Rightarrow> None
      | Some (byte, ctx') \<Rightarrow>
          (let result' = result OR push_bit shift (ucast (byte AND 0x7f)) in
           if byte AND 0x80 = 0
           then Some (if byte AND 0x40 \<noteq> 0 then result' OR push_bit (shift + 7) (- 1) else result',
                      shift > 0 \<and> ((byte = 0 \<and> prev AND 0x40 = 0) \<or> (byte = 0x7f \<and> prev AND 0x40 \<noteq> 0)),
                      ctx')
           else sleb128_loop ctx' (shift + 7) result' byte))"
  by pat_completeness auto
termination
  by (relation "measure (\<lambda>(ctx, shift, result, prev). rc_end ctx - rc_ptr ctx)")
     (auto simp: read_ctx_read_ubyte_def read_ctx_need_data_def split: if_splits)

declare sleb128_loop.simps [simp del]

definition read_ctx_read_sleb128 :: "read_ctx \<Rightarrow> (64 word \<times> bool \<times> read_ctx) option" where
  "read_ctx_read_sleb128 ctx = sleb128_loop ctx 0 0 0"

section \<open>Location expressions (dwarflint.c, lines 1316-1398 and 4024-4171)\<close>

definition wr_format_leb128_message :: "where_site \<Rightarrow> globals \<Rightarrow> globals" where
  \<open>wr_format_leb128_message wh g =
     wr_message (mc_leb128 OR mc_acc_bloat OR mc_impact_3) (Some wh)
       '': %s: value %s encoded as `%s'.'' g\<close>

definition checked_read_uleb128 ::
  "read_ctx \<Rightarrow> where_site \<Rightarrow> globals \<Rightarrow> (64 word \<times> read_ctx) option \<times> globals" where
  "checked_read_uleb128 ctx wh g =
     (case read_ctx_read_uleb128 ctx of
        None \<Rightarrow> (None, wr_error (Some wh) '': can't read %s.'' g)
      | Some (v, bloat, ctx') \<Rightarrow>
          (Some (v, ctx'), if bloat then wr_format_leb128_message wh g else g))"

definition checked_read_sleb128 ::
  "read_ctx \<Rightarrow> where_site \<Rightarrow> globals \<Rightarrow> (64 word \<times> read_ctx) option \<times> globals" where
  "checked_read_sleb128 ctx wh g =
     (case read_ctx_read_sleb128 ctx of
        None \<Rightarrow> (None, wr_error (Some wh) '': can't read %s.'' g)
      | Some (v, bloat, ctx') \<Rightarrow>
          (Some (v, ctx'), if bloat then wr_format_leb128_message wh g else g))"

text \<open>The form codes and the operation codes of \<^verbatim>\<open>dwarf.h\<close> that the functions below name.\<close>

definition DW_FORM_addr :: "8 word" where "DW_FORM_addr = 0x01"
definition DW_FORM_data2 :: "8 word" where "DW_FORM_data2 = 0x05"
definition DW_FORM_data4 :: "8 word" where "DW_FORM_data4 = 0x06"
definition DW_FORM_data8 :: "8 word" where "DW_FORM_data8 = 0x07"
definition DW_FORM_data1 :: "8 word" where "DW_FORM_data1 = 0x0b"
definition DW_FORM_sdata :: "8 word" where "DW_FORM_sdata = 0x0d"
definition DW_FORM_udata :: "8 word" where "DW_FORM_udata = 0x0f"

definition DW_OP_const8u :: "8 word" where "DW_OP_const8u = 0x0e"
definition DW_OP_const8s :: "8 word" where "DW_OP_const8s = 0x0f"
definition DW_OP_constu :: "8 word" where "DW_OP_constu = 0x10"
definition DW_OP_consts :: "8 word" where "DW_OP_consts = 0x11"
definition DW_OP_plus_uconst :: "8 word" where "DW_OP_plus_uconst = 0x23"
definition DW_OP_bra :: "8 word" where "DW_OP_bra = 0x28"
definition DW_OP_skip :: "8 word" where "DW_OP_skip = 0x2f"
definition DW_OP_deref_size :: "8 word" where "DW_OP_deref_size = 0x94"

definition read_ctx_read_form ::
  "read_ctx \<Rightarrow> bool \<Rightarrow> 8 word \<Rightarrow> where_site \<Rightarrow> globals
   \<Rightarrow> (64 word \<times> read_ctx) option \<times> globals" where
  "read_ctx_read_form ctx addr_64 form wh g =
     (if form = DW_FORM_addr then (read_ctx_read_offset ctx addr_64, g)
      else if form = DW_FORM_udata then checked_read_uleb128 ctx wh g
      else if form = DW_FORM_sdata then checked_read_sleb128 ctx wh g
      else if form = DW_FORM_data1
      then (map_option (\<lambda>(b, c). (ucast b, c)) (read_ctx_read_ubyte ctx), g)
      else if form = DW_FORM_data2 then (read_ctx_read_2ubyte ctx, g)
      else if form = DW_FORM_data4 then (read_ctx_read_4ubyte ctx, g)
      else if form = DW_FORM_data8 then (read_ctx_read_8ubyte ctx, g)
      else (None, g))"

text \<open>
  What the checks take from outside this file and from the ELF file: the operand forms
  of an operation (\<^verbatim>\<open>get_location_opcode_operands\<close>, whose table \<^verbatim>\<open>expr_opcodes.h\<close> is not
  among the sources; \<open>None\<close> for an unknown operation), and the call of \<^verbatim>\<open>relocate_one\<close>
  on a value just read, which looks up the symbol table and the section headers of the
  file. Its arguments here are the relocation data (a pointer that may be null), the
  relocation, the width, the value, the site and the kind of target, which is \<^verbatim>\<open>reloc_target_loc (opcode)\<close> for an
  operand of an operation and \<^verbatim>\<open>rel_value\<close> for an address of a list entry. Its result is
  the new value, the section index of the symbol that it leaves in \<^verbatim>\<open>*symptr\<close> (if any)
  and the globals after what it printed, or \<open>None\<close> when the process is stopped in the
  call by a failed assertion.
\<close>

datatype reloc_target = reloc_target_loc "8 word" | rel_value

record loc_env =
  get_location_opcode_operands :: "8 word \<Rightarrow> (8 word \<times> 8 word) option"
  relocate_one :: "relocation_data option \<Rightarrow> relocation \<Rightarrow> nat \<Rightarrow> 64 word \<Rightarrow> where_site
                   \<Rightarrow> reloc_target \<Rightarrow> globals \<Rightarrow> (64 word \<times> nat option \<times> globals) option"

text \<open>The variables of \<^verbatim>\<open>check_location_expression\<close> that its loop changes.\<close>

record loc_state =
  ls_ctx :: read_ctx
  ls_reloc :: "relocation_data option"
  ls_oprefs :: ref_record
  ls_opaddrs :: addr_record
  ls_glob :: globals

text \<open>
  The macro \<^verbatim>\<open>READ_FORM\<close> for the operand form \<open>op\<close>; \<open>str\<close> is \<^verbatim>\<open>"1st"\<close> or \<^verbatim>\<open>"2st"\<close> and
  \<open>v\<close> the variable that receives the value. In the result, a value \<open>None\<close> is
  \<^verbatim>\<open>goto out\<close>; the result \<open>None\<close> is the process stopped in \<^verbatim>\<open>relocation_next\<close> or in
  \<^verbatim>\<open>relocate_one\<close>.
\<close>

definition read_operand ::
  "loc_env \<Rightarrow> bool \<Rightarrow> 64 word \<Rightarrow> 8 word \<Rightarrow> where_site \<Rightarrow> 8 word \<Rightarrow> string \<Rightarrow> 64 word
   \<Rightarrow> loc_state \<Rightarrow> (64 word option \<times> loc_state) option" where
  \<open>read_operand env addr_64 init_off opcode wh op str v st =
     (if op \<noteq> 0 then
        (let off = read_ctx_get_offset (ls_ctx st) + init_off in
         case read_ctx_read_form (ls_ctx st) addr_64 op wh (ls_glob st) of
           (None, g1) \<Rightarrow>
             Some (None, st\<lparr>ls_glob := wr_error (Some wh)
                      ('': opcode "%s": can't read '' @ str @ '' operand (form "%s").'') g1\<rparr>)
         | (Some (v', ctx'), g1) \<Rightarrow>
             (case relocation_next_opt (ls_reloc st) off wh skip_mismatched g1 of
                None \<Rightarrow> None
              | Some (None, rd, g2) \<Rightarrow>
                  Some (Some v', st\<lparr>ls_ctx := ctx', ls_reloc := rd, ls_glob := g2\<rparr>)
              | Some (Some r, rd, g2) \<Rightarrow>
                  (case relocate_one env rd r (if addr_64 then 8 else 4) v' wh
                          (reloc_target_loc opcode) g2 of
                     None \<Rightarrow> None
                   | Some (v'', symb, g3) \<Rightarrow>
                       Some (Some v'', st\<lparr>ls_ctx := ctx', ls_reloc := rd, ls_glob := g3\<rparr>))))
      else Some (Some v, st))\<close>

text \<open>The \<^verbatim>\<open>switch\<close> on the operation (lines 4112-4154).\<close>

definition check_opcode ::
  "bool \<Rightarrow> 8 word \<Rightarrow> 64 word \<Rightarrow> where_site \<Rightarrow> 64 word \<Rightarrow> loc_state \<Rightarrow> loc_state" where
  "check_opcode addr_64 opcode opcode_off wh value1 st =
     (if opcode = DW_OP_bra \<or> opcode = DW_OP_skip then
        (let skip = (ucast value1 :: 16 word) in
         if skip = 0
         then st\<lparr>ls_glob := wr_message (mc_loc OR mc_acc_bloat OR mc_impact_3) (Some wh)
                               '': %s with skip 0.'' (ls_glob st)\<rparr>
         else if sint skip > 0 \<and> \<not> read_ctx_need_data (ls_ctx st) (unat skip)
         then st\<lparr>ls_glob := wr_error (Some wh)
                               '': %s branches out of location expression.'' (ls_glob st)\<rparr>
         else if sint skip < 0 \<and> (of_int (- sint skip) :: 64 word) > read_ctx_get_offset (ls_ctx st)
         then st\<lparr>ls_glob := wr_error (Some wh)
                               '': %s branches before the beginning of location expression.''
                               (ls_glob st)\<rparr>
         else st\<lparr>ls_oprefs := ref_record_add (ls_oprefs st) (opcode_off + scast skip) wh\<rparr>)
      else if opcode = DW_OP_const8u \<or> opcode = DW_OP_const8s then
        (if \<not> addr_64
         then st\<lparr>ls_glob := wr_error (Some wh) '': %s on 32-bit machine.'' (ls_glob st)\<rparr>
         else st)
      else if \<not> addr_64
              \<and> (opcode = DW_OP_constu \<or> opcode = DW_OP_consts
                   \<or> opcode = DW_OP_deref_size \<or> opcode = DW_OP_plus_uconst)
              \<and> value1 > 0xFFFFFFFF
      then st\<lparr>ls_glob := wr_message (mc_loc OR mc_acc_bloat OR mc_impact_3) (Some wh)
                            '': %s with operand %#lx on 32-bit machine.'' (ls_glob st)\<rparr>
      else st)"

text \<open>
  The readers keep the end of the cursor and do not move it backwards; the termination of
  the loop below rests on this.
\<close>

lemma read_ubyte_moves:
  "read_ctx_read_ubyte ctx = Some (b, ctx')
   \<Longrightarrow> rc_end ctx' = rc_end ctx \<and> rc_ptr ctx' = rc_ptr ctx + 1 \<and> rc_ptr ctx < rc_end ctx"
  by (auto simp: read_ctx_read_ubyte_def read_ctx_need_data_def split: if_splits)

lemma read_nubyte_moves:
  "read_ctx_read_nubyte n ctx = Some (v, ctx')
   \<Longrightarrow> rc_end ctx' = rc_end ctx \<and> rc_ptr ctx \<le> rc_ptr ctx'"
  by (auto simp: read_ctx_read_nubyte_def split: if_splits)

lemma uleb128_loop_moves:
  "uleb128_loop ctx shift result = Some (v, bl, ctx')
   \<Longrightarrow> rc_end ctx' = rc_end ctx \<and> rc_ptr ctx \<le> rc_ptr ctx'"
proof (induction ctx shift result rule: uleb128_loop.induct)
  case (1 ctx shift result)
  from "1.prems" obtain byte ctx1 where r: "read_ctx_read_ubyte ctx = Some (byte, ctx1)"
    by (subst (asm) uleb128_loop.simps) (auto split: option.splits)
  note m = read_ubyte_moves [OF r]
  show ?case
  proof (cases "byte AND 0x80 = 0")
    case True
    then have "ctx' = ctx1"
      using "1.prems" r by (subst (asm) uleb128_loop.simps) (simp add: Let_def)
    then show ?thesis using m by simp
  next
    case False
    then have "uleb128_loop ctx1 (shift + 7) (result OR push_bit shift (ucast (byte AND 0x7f)))
                 = Some (v, bl, ctx')"
      using "1.prems" r by (subst (asm) uleb128_loop.simps) (simp add: Let_def)
    from "1.IH" [OF r refl refl False this] show ?thesis using m by simp
  qed
qed

lemma sleb128_loop_moves:
  "sleb128_loop ctx shift result prev = Some (v, bl, ctx')
   \<Longrightarrow> rc_end ctx' = rc_end ctx \<and> rc_ptr ctx \<le> rc_ptr ctx'"
proof (induction ctx shift result prev rule: sleb128_loop.induct)
  case (1 ctx shift result prev)
  from "1.prems" obtain byte ctx1 where r: "read_ctx_read_ubyte ctx = Some (byte, ctx1)"
    by (subst (asm) sleb128_loop.simps) (auto split: option.splits)
  note m = read_ubyte_moves [OF r]
  show ?case
  proof (cases "byte AND 0x80 = 0")
    case True
    then have "ctx' = ctx1"
      using "1.prems" r by (subst (asm) sleb128_loop.simps) (simp add: Let_def)
    then show ?thesis using m by simp
  next
    case False
    then have "sleb128_loop ctx1 (shift + 7) (result OR push_bit shift (ucast (byte AND 0x7f))) byte
                 = Some (v, bl, ctx')"
      using "1.prems" r by (subst (asm) sleb128_loop.simps) (simp add: Let_def)
    from "1.IH" [OF r refl refl False this] show ?thesis using m by simp
  qed
qed

lemma read_form_moves:
  "read_ctx_read_form ctx addr_64 form wh g = (Some (v, ctx'), g')
   \<Longrightarrow> rc_end ctx' = rc_end ctx \<and> rc_ptr ctx \<le> rc_ptr ctx'"
  by (auto simp: read_ctx_read_form_def read_ctx_read_offset_def read_ctx_read_2ubyte_def
        read_ctx_read_4ubyte_def read_ctx_read_8ubyte_def checked_read_uleb128_def
        checked_read_sleb128_def read_ctx_read_uleb128_def read_ctx_read_sleb128_def
      split: if_splits option.splits
      dest: read_nubyte_moves uleb128_loop_moves sleb128_loop_moves read_ubyte_moves)

lemma read_operand_moves:
  "read_operand env addr_64 init_off opcode wh op str v st = Some (Some v', st')
   \<Longrightarrow> rc_end (ls_ctx st') = rc_end (ls_ctx st) \<and> rc_ptr (ls_ctx st) \<le> rc_ptr (ls_ctx st')"
  by (auto simp: read_operand_def Let_def split: if_splits prod.splits option.splits
      dest: read_form_moves)

lemma check_opcode_ctx:
  "ls_ctx (check_opcode addr_64 opcode opcode_off wh value1 st) = ls_ctx st"
  by (simp add: check_opcode_def Let_def)

text \<open>
  The loop of \<^verbatim>\<open>check_location_expression\<close> (lines 4061-4155). The result is the state at
  the label \<^verbatim>\<open>out\<close>, which the loop reaches by running out of bytes, by \<^verbatim>\<open>break\<close> or by
  \<^verbatim>\<open>goto out\<close>, or \<open>None\<close> when the process is stopped while an operand is read.
\<close>

function check_location_expression_loop ::
  "loc_env \<Rightarrow> bool \<Rightarrow> 64 word \<Rightarrow> where_site \<Rightarrow> loc_state \<Rightarrow> loc_state option" where
  \<open>check_location_expression_loop env addr_64 init_off wh st =
     (if read_ctx_eof (ls_ctx st) then Some st
      else
        (let opcode_off = read_ctx_get_offset (ls_ctx st) + init_off;
             wh1 = where_reset_1 (WHERE sec_locexpr (Some wh)) opcode_off;
             st0 = st\<lparr>ls_opaddrs := addr_record_add (ls_opaddrs st) opcode_off\<rparr>
         in case read_ctx_read_ubyte (ls_ctx st0) of
              None \<Rightarrow>
                Some (st0\<lparr>ls_glob := wr_error (Some wh1) '': can't read opcode.'' (ls_glob st0)\<rparr>)
            | Some (opcode, ctx1) \<Rightarrow>
                (case get_location_opcode_operands env opcode of
                   None \<Rightarrow>
                     Some (st0\<lparr>ls_ctx := ctx1,
                              ls_glob := wr_error (Some wh1) '': can't decode opcode "%s".''
                                           (ls_glob st0)\<rparr>)
                 | Some (op1, op2) \<Rightarrow>
                     (case read_operand env addr_64 init_off opcode wh1 op1 ''1st'' 0
                             (st0\<lparr>ls_ctx := ctx1\<rparr>) of
                        None \<Rightarrow> None
                      | Some (None, st1) \<Rightarrow> Some st1
                      | Some (Some value1, st1) \<Rightarrow>
                          (case read_operand env addr_64 init_off opcode wh1 op2 ''2st'' 0 st1 of
                             None \<Rightarrow> None
                           | Some (None, st2) \<Rightarrow> Some st2
                           | Some (Some value2, st2) \<Rightarrow>
                               check_location_expression_loop env addr_64 init_off wh
                                 (check_opcode addr_64 opcode opcode_off wh1 value1 st2))))))\<close>
  by pat_completeness auto
termination
proof (relation "measure (\<lambda>(env, addr_64, init_off, wh, st). rc_end (ls_ctx st) - rc_ptr (ls_ctx st))",
       goal_cases)
  case 1
  show ?case by simp
next
  case prems: 2
  from prems(4-) show ?case
    by (auto simp: check_opcode_ctx dest!: read_ubyte_moves read_operand_moves)
qed

declare check_location_expression_loop.simps [simp del]

text \<open>The loop at \<^verbatim>\<open>out\<close> over the recorded branch targets (lines 4158-4165).\<close>

definition check_oprefs :: "loc_state \<Rightarrow> globals" where
  "check_oprefs st =
     fold (\<lambda>r g. if \<not> addr_record_has_addr (ls_opaddrs st) (addr r)
                  then wr_error (Some (who r)) '': unresolved reference to opcode at %#lx.'' g
                  else g)
          (ls_oprefs st) (ls_glob st)"

text \<open>
  \<^verbatim>\<open>check_location_expression\<close>: the value returned, the relocation data and the globals,
  or \<open>None\<close> when the process is stopped. The sub-cursor covers \<open>len\<close> bytes from the
  position of the enclosing cursor.
\<close>

definition check_location_expression ::
  "loc_env \<Rightarrow> read_ctx \<Rightarrow> 64 word \<Rightarrow> relocation_data option \<Rightarrow> nat \<Rightarrow> where_site \<Rightarrow> bool
   \<Rightarrow> globals \<Rightarrow> (bool \<times> relocation_data option \<times> globals) option" where
  "check_location_expression env parent_ctx init_off reloc len wh addr_64 g =
     (case read_ctx_init_sub parent_ctx (rc_ptr parent_ctx) (rc_ptr parent_ctx + len) of
        None \<Rightarrow> Some (False, reloc, wr_error (Some wh) '': not enough data for %s.'' g)
      | Some ctx \<Rightarrow>
          (case check_location_expression_loop env addr_64 init_off wh
                  \<lparr>ls_ctx = ctx, ls_reloc = reloc, ls_oprefs = [], ls_opaddrs = [], ls_glob = g\<rparr> of
             None \<Rightarrow> None
           | Some st \<Rightarrow> Some (True, ls_reloc st, check_oprefs st)))"

text \<open>
  For the examples: operand forms for the operations \<^verbatim>\<open>bra\<close>, \<^verbatim>\<open>skip\<close>, \<^verbatim>\<open>addr\<close>,
  \<^verbatim>\<open>const1u\<close> and \<^verbatim>\<open>dup\<close> with a relocation that changes nothing, a little-endian cursor
  over given bytes, and the sites of an expression and of its operations.
\<close>

definition example_env :: loc_env where
  "example_env =
     \<lparr>get_location_opcode_operands =
        (\<lambda>opcode. if opcode = DW_OP_bra \<or> opcode = DW_OP_skip then Some (DW_FORM_data2, 0)
                   else if opcode = 0x03 then Some (DW_FORM_addr, 0)
                   else if opcode = 0x08 then Some (DW_FORM_data1, 0)
                   else if opcode = 0x12 then Some (0, 0)
                   else None),
      relocate_one = (\<lambda>rd r width v wh target g. Some (v, None, g))\<rparr>"

definition ctx_of :: "8 word list \<Rightarrow> read_ctx" where
  "ctx_of bs = read_ctx_init bs True"

definition expr_site :: where_site where
  "expr_site = die_site 0x0b"

definition opcode_site :: "64 word \<Rightarrow> where_site" where
  "opcode_site off = where_reset_1 (WHERE sec_locexpr (Some expr_site)) off"

section \<open>References into \<^verbatim>\<open>.debug_loc\<close> and \<^verbatim>\<open>.debug_ranges\<close> (dwarflint.c, lines 2632-2648 and 4172-4470)\<close>





text \<open>
  \<^verbatim>\<open>check_range_relocations\<close> (lines 2632-2648). A symbol is given by its section index
  \<^verbatim>\<open>st_shndx\<close>; \<open>None\<close> is the null pointer.
\<close>

definition check_range_relocations ::
  "message_category \<Rightarrow> where_site \<Rightarrow> nat option \<Rightarrow> nat option \<Rightarrow> globals \<Rightarrow> globals" where
  "check_range_relocations cat wh begin_symbol end_symbol g =
     (case begin_symbol of
        None \<Rightarrow> g
      | Some b \<Rightarrow>
          (case end_symbol of
             None \<Rightarrow> g
           | Some e \<Rightarrow>
               if b \<noteq> e
               then wr_message (cat OR mc_impact_2 OR mc_reloc) (Some wh)
                      '': %s relocated against different sections (%s and %s).'' g
               else g))"





























text \<open>
  Two properties used below: the output of \<open>g'\<close> is the output of \<open>g\<close> with lines added,
  and \<^verbatim>\<open>relocate_one\<close>, which is given from outside, only adds lines to the output.
\<close>

definition grows :: "globals \<Rightarrow> globals \<Rightarrow> bool" where
  "grows g g' = (\<exists>ls. out g' = out g @ ls)"

section \<open>Properties\<close>

subsection \<open>Acceptance of a category by a criterion\<close>

lemma message_accept_iff:
  "message_accept cri cat \<longleftrightarrow>
     (\<exists>t \<in> set cri. (positive t AND cat) = positive t \<and> (negative t AND cat) = 0)"
  by (induction cri) auto

lemma subset_bits_iff:
  "(p AND c) = p \<longleftrightarrow> (\<forall>n. bit p n \<longrightarrow> bit c n)" for p c :: "32 word"
proof
  assume h: "(p AND c) = p"
  show "\<forall>n. bit p n \<longrightarrow> bit c n"
  proof (intro allI impI)
    fix n assume "bit p n"
    then have "bit (p AND c) n" using h by simp
    then show "bit c n" by (simp add: bit_and_iff)
  qed
next
  assume h: "\<forall>n. bit p n \<longrightarrow> bit c n"
  show "(p AND c) = p"
    by (rule bit_eqI) (use h in \<open>auto simp: bit_and_iff\<close>)
qed

lemma disjoint_bits_iff:
  "(q AND c) = 0 \<longleftrightarrow> (\<forall>n. \<not> (bit q n \<and> bit c n))" for q c :: "32 word"
proof
  assume h: "(q AND c) = 0"
  show "\<forall>n. \<not> (bit q n \<and> bit c n)"
  proof (intro allI notI)
    fix n assume "bit q n \<and> bit c n"
    then have "bit (q AND c) n" by (simp add: bit_and_iff)
    then show False using h by simp
  qed
next
  assume h: "\<forall>n. \<not> (bit q n \<and> bit c n)"
  show "(q AND c) = 0"
    by (rule bit_eqI) (use h in \<open>auto simp: bit_and_iff\<close>)
qed

subsection \<open>What the entry points print\<close>

lemma out_wr_verror:
  "out (wr_verror wh msg g) = out g @ Diagnostic Sev_error wh msg # chain_lines Sev_error wh g"
  by (simp add: wr_verror_def where_fmt_chain_def chain_lines_def Let_def split: option.splits)

lemma out_wr_vwarning:
  "out (wr_vwarning wh msg g) = out g @ Diagnostic Sev_warning wh msg # chain_lines Sev_warning wh g"
  by (simp add: wr_vwarning_def where_fmt_chain_def chain_lines_def Let_def split: option.splits)

lemma filter_chain: "filter is_Diagnostic (chain_lines sev wh g) = []"
  by (auto simp: chain_lines_def filter_empty_conv split: option.splits)





subsection \<open>The error counter and the exit code\<close>

lemma run_replicate_warning:
  "out (run_calls (replicate n (Call_warning wh m)) g)
     = out g @ concat (replicate n (Diagnostic Sev_warning wh m # chain_lines Sev_warning wh g))
   \<and> error_count (run_calls (replicate n (Call_warning wh m)) g) = error_count g + of_nat n
   \<and> show_refs (run_calls (replicate n (Call_warning wh m)) g) = show_refs g"
proof (induction n arbitrary: g)
  case 0
  show ?case by (simp add: run_calls_def)
next
  case (Suc n)
  have a: "run_calls (replicate (Suc n) (Call_warning wh m)) g
         = run_calls (replicate n (Call_warning wh m)) (wr_vwarning wh m g)"
    by (simp add: run_calls_def wr_warning_def)
  have b: "chain_lines Sev_warning wh (wr_vwarning wh m g) = chain_lines Sev_warning wh g"
    by (simp add: chain_lines_def wr_vwarning_def where_fmt_chain_def Let_def split: option.splits)
  have c: "error_count (wr_vwarning wh m g) = error_count g + 1"
    by (simp add: wr_vwarning_def where_fmt_chain_def Let_def split: option.splits)
  have d: "show_refs (wr_vwarning wh m g) = show_refs g"
    by (simp add: wr_vwarning_def where_fmt_chain_def Let_def split: option.splits)
  show ?case
    unfolding a using Suc.IH [of "wr_vwarning wh m g"]
    by (simp add: b c d out_wr_vwarning)
qed

lemma do_call_effect:
  "\<exists>ls. out (do_call c g) = out g @ ls
       \<and> error_count (do_call c g) = error_count g + of_nat (length (filter is_Diagnostic ls))"
proof (cases c)
  case (Call_error wh m)
  show ?thesis
    unfolding Call_error
    by (rule exI [of _ "Diagnostic Sev_error wh m # chain_lines Sev_error wh g"])
       (simp add: wr_error_def out_wr_verror filter_chain,
        simp add: wr_verror_def where_fmt_chain_def Let_def split: option.splits)
next
  case (Call_warning wh m)
  show ?thesis
    unfolding Call_warning
    by (rule exI [of _ "Diagnostic Sev_warning wh m # chain_lines Sev_warning wh g"])
       (simp add: wr_warning_def out_wr_vwarning filter_chain,
        simp add: wr_vwarning_def where_fmt_chain_def Let_def split: option.splits)
next
  case (Call_message cat wh m)
  show ?thesis
  proof (cases "message_accept (warning_criteria g) cat")
    case False
    then show ?thesis unfolding Call_message by (simp add: wr_message_def)
  next
    case True
    show ?thesis
    proof (cases "message_accept (error_criteria g) cat")
      case e: True
      show ?thesis
        unfolding Call_message
        by (rule exI [of _ "Diagnostic Sev_error wh m # chain_lines Sev_error wh g"])
           (simp add: wr_message_def True e out_wr_verror filter_chain,
            simp add: wr_verror_def where_fmt_chain_def Let_def split: option.splits)
    next
      case e: False
      show ?thesis
        unfolding Call_message
        by (rule exI [of _ "Diagnostic Sev_warning wh m # chain_lines Sev_warning wh g"])
           (simp add: wr_message_def True e out_wr_vwarning filter_chain,
            simp add: wr_vwarning_def where_fmt_chain_def Let_def split: option.splits)
    qed
  qed
qed

lemma run_calls_effect:
  "\<exists>ls. out (run_calls cs g) = out g @ ls
       \<and> error_count (run_calls cs g) = error_count g + of_nat (length (filter is_Diagnostic ls))"
proof (induction cs arbitrary: g)
  case Nil
  show ?case by (simp add: run_calls_def)
next
  case (Cons c cs)
  obtain l1 where 1: "out (do_call c g) = out g @ l1"
      "error_count (do_call c g) = error_count g + of_nat (length (filter is_Diagnostic l1))"
    using do_call_effect by blast
  obtain l2 where 2: "out (run_calls cs (do_call c g)) = out (do_call c g) @ l2"
      "error_count (run_calls cs (do_call c g))
         = error_count (do_call c g) + of_nat (length (filter is_Diagnostic l2))"
    using Cons.IH by blast
  have s: "run_calls (c # cs) g = run_calls cs (do_call c g)"
    by (simp add: run_calls_def)
  show ?case
    unfolding s
    by (rule exI [of _ "l1 @ l2"]) (simp add: 1 2)
qed

text \<open>
  As long as fewer than \<open>2 ^ 32\<close> diagnostic lines are printed, the exit code is \<open>1\<close>
  exactly when a diagnostic line was printed.
\<close>

lemma exit_code_bounded:
  assumes "length (filter is_Diagnostic (emitted (run_calls cs) (initial_globals wc ec refs))) < 2 ^ 32"
  shows "exit_code (run_calls cs (initial_globals wc ec refs)) = 1
         \<longleftrightarrow> filter is_Diagnostic (emitted (run_calls cs) (initial_globals wc ec refs)) \<noteq> []"
proof -
  let ?g = "initial_globals wc ec refs"
  obtain ls where ls: "out (run_calls cs ?g) = out ?g @ ls"
      "error_count (run_calls cs ?g) = error_count ?g + of_nat (length (filter is_Diagnostic ls))"
    using run_calls_effect by blast
  have em: "emitted (run_calls cs) ?g = ls"
    by (simp add: emitted_def ls)
  let ?n = "length (filter is_Diagnostic ls)"
  have lt: "?n < 2 ^ 32" using assms by (simp add: em)
  have e0: "error_count ?g = 0"
    by (simp add: initial_globals_def)
  have "error_count (run_calls cs ?g) = of_nat ?n"
    unfolding ls(2) e0 by simp
  moreover have "(of_nat ?n :: 32 word) = 0 \<longleftrightarrow> ?n = 0"
    using lt of_nat_neq_0 [of ?n, where 'a = 32] by auto
  ultimately show ?thesis
    by (simp add: exit_code_def em)
qed

text \<open>
  Claim C8. Every call of \<^verbatim>\<open>wr_warning\<close> prints a line of severity warning and increments
  the error counter, and the exit code is meant to be \<open>1\<close> exactly when some diagnostic
  was printed. The counter is a 32-bit unsigned integer that is incremented without a
  guard: after \<open>2 ^ 32\<close> calls of \<^verbatim>\<open>wr_warning\<close> it is \<open>0\<close> again, and the exit code is
  \<open>0\<close> although \<open>2 ^ 32\<close> warning lines were printed.
\<close>

theorem exit_code_after_2_32_warnings:
  "out (run_calls (replicate (2 ^ 32) (Call_warning None msg)) (initial_globals wc ec refs))
     = replicate (2 ^ 32) (Diagnostic Sev_warning None msg)
   \<and> error_count (run_calls (replicate (2 ^ 32) (Call_warning None msg)) (initial_globals wc ec refs)) = 0
   \<and> exit_code (run_calls (replicate (2 ^ 32) (Call_warning None msg)) (initial_globals wc ec refs)) = 0"
proof -
  define N :: nat where "N = 2 ^ 32"
  define g where "g = initial_globals wc ec refs"
  define g' where "g' = run_calls (replicate N (Call_warning None msg)) g"
  have o: "out g = []" and e: "error_count g = 0"
    by (simp_all add: g_def initial_globals_def)
  have cl: "chain_lines Sev_warning None g = []"
    by (simp add: chain_lines_def)
  have cc: "concat (replicate n [x]) = replicate n x" for n and x :: out_line
    by (induction n) simp_all
  have z: "(of_nat N :: 32 word) = 0"
    by (simp add: N_def)
  have 1: "out g' = replicate N (Diagnostic Sev_warning None msg)"
    unfolding g'_def using run_replicate_warning [of N None msg g] by (simp add: o cl cc)
  have 2: "error_count g' = 0"
    unfolding g'_def using run_replicate_warning [of N None msg g] by (simp add: e z)
  have 3: "exit_code g' = 0"
    by (simp add: exit_code_def 2)
  show ?thesis
    using 1 2 3 unfolding g'_def g_def N_def by blast
qed

subsection \<open>Negation of a term\<close>

lemma push_bit_distinct_and:
  "i \<noteq> j \<Longrightarrow> (push_bit i 1 AND push_bit j 1) = (0 :: 32 word)"
  by (rule bit_eqI) (auto simp: bit_and_iff bit_exp_iff)

text \<open>
  \<^verbatim>\<open>message_cri_neg\<close> keeps the polarity of each literal: the term "category 0" gives the
  criterion "category 0". Its caller \<^verbatim>\<open>message_cri_and_not\<close> exchanges the masks first.
\<close>

lemma message_cri_neg_keeps_polarity:
  "message_cri_neg 1 \<lparr>positive = 1, negative = 0\<rparr> = Some [\<lparr>positive = 1, negative = mc_none\<rparr>]"
  by (simp add: message_cri_neg_def message_cri_neg_step_def message_cri_or_def mc_none_def)

lemma neg_step_skip:
  assumes "(positive t AND push_bit i 1) = 0" "(negative t AND push_bit i 1) = 0"
  shows "message_cri_neg_step t i (Some ret) = Some ret"
  using assms by (simp add: message_cri_neg_step_def Let_def)

lemma fold_neg_step_skip:
  assumes "\<forall>i \<in> set xs. (positive t AND push_bit i 1) = 0 \<and> (negative t AND push_bit i 1) = 0"
  shows "fold (message_cri_neg_step t) xs (Some ret) = Some ret"
  using assms by (induction xs) (simp_all add: neg_step_skip)

lemma message_cri_mul_empty: "message_cri_mul cri [] = []"
  by (induction cri) (simp_all add: message_cri_mul_def)

lemma and_push_bit_iff: "(p AND push_bit i 1) \<noteq> 0 \<longleftrightarrow> bit p i" for p :: "32 word"
proof -
  have "(p AND push_bit i 1) = 0 \<longleftrightarrow> (\<forall>n. \<not> (bit p n \<and> bit (push_bit i 1 :: 32 word) n))"
    by (rule disjoint_bits_iff)
  also have "\<dots> \<longleftrightarrow> \<not> bit p i"
  proof -
    have "bit p i \<Longrightarrow> i < 32" using bit_imp_le_length [of p i] by simp
    then show ?thesis by (auto simp: bit_exp_iff)
  qed
  finally show ?thesis by blast
qed

lemma neg_step_literals:
  "message_cri_neg_step t i (Some ret) = Some (ret @ neg_literals t i)"
  using and_push_bit_iff [of "positive t" i] and_push_bit_iff [of "negative t" i]
  by (simp add: message_cri_neg_step_def neg_literals_def message_cri_or_def mc_none_def Let_def)

lemma fold_neg_literals:
  "fold (message_cri_neg_step t) xs (Some ret) = Some (ret @ concat (map (neg_literals t) xs))"
  by (induction xs arbitrary: ret) (simp_all add: neg_step_literals)

lemma message_accept_append:
  "message_accept (xs @ ys) c \<longleftrightarrow> message_accept xs c \<or> message_accept ys c"
  by (auto simp: message_accept_iff)

lemma message_accept_concat:
  "message_accept (concat xss) c \<longleftrightarrow> (\<exists>xs \<in> set xss. message_accept xs c)"
  by (auto simp: message_accept_iff)

lemma single_bit_subset: "(push_bit i 1 AND c) = push_bit i 1 \<longleftrightarrow> i \<ge> 32 \<or> bit c i" for c :: "32 word"
proof (cases "i < 32")
  case False
  have "(push_bit i 1 :: 32 word) = 0"
  proof (rule bit_eqI)
    fix n
    show "bit (push_bit i 1 :: 32 word) n \<longleftrightarrow> bit (0 :: 32 word) n"
      using False by (auto simp: bit_exp_iff)
  qed
  then have "(push_bit i 1 AND c) = push_bit i 1" by (simp only: and_zero_eq zero_and_eq)
  then show ?thesis using False by (simp only: linorder_not_less simp_thms)
next
  case True
  have "(push_bit i 1 AND c) = push_bit i 1 \<longleftrightarrow> (\<forall>n. bit (push_bit i 1 :: 32 word) n \<longrightarrow> bit c n)"
    by (rule subset_bits_iff)
  also have "\<dots> \<longleftrightarrow> bit c i"
    using True by (auto simp: bit_exp_iff)
  finally show ?thesis using True by simp
qed

lemma single_bit_disjoint: "(push_bit i 1 AND c) = 0 \<longleftrightarrow> \<not> bit c i" for c :: "32 word"
  by (metis and.commute and_push_bit_iff)

lemma accept_neg_literals:
  "message_accept (neg_literals t i) c \<longleftrightarrow>
     (bit (positive t) i \<and> bit c i) \<or> (\<not> bit (positive t) i \<and> bit (negative t) i \<and> \<not> bit c i)"
proof -
  have "i < 32" if "bit (positive t) i" using bit_imp_le_length [OF that] by simp
  then show ?thesis
    using single_bit_subset [of i c] single_bit_disjoint [of i c]
    by (auto simp: neg_literals_def mc_none_def)
qed

lemma message_cri_neg_accept:
  assumes "(positive t AND negative t) = 0"
  shows "\<exists>cri. message_cri_neg mx t = Some cri
           \<and> (\<forall>c. message_accept cri c \<longleftrightarrow>
                 (\<exists>i<mx. (bit (positive t) i \<and> bit c i) \<or> (bit (negative t) i \<and> \<not> bit c i)))"
proof -
  have d: "\<not> (bit (positive t) i \<and> bit (negative t) i)" for i
    using assms disjoint_bits_iff [of "positive t" "negative t"] by blast
  have e: "message_cri_neg mx t = Some (concat (map (neg_literals t) [0..<mx]))"
    using assms by (simp add: message_cri_neg_def fold_neg_literals)
  have l: "message_accept (neg_literals t i) c
           \<longleftrightarrow> (bit (positive t) i \<and> bit c i) \<or> (bit (negative t) i \<and> \<not> bit c i)" for i c
    unfolding accept_neg_literals using d [of i] by blast
  have "message_accept (concat (map (neg_literals t) [0..<mx])) c
          \<longleftrightarrow> (\<exists>i<mx. (bit (positive t) i \<and> bit c i) \<or> (bit (negative t) i \<and> \<not> bit c i))" for c
  proof -
    have "message_accept (concat (map (neg_literals t) [0..<mx])) c
            \<longleftrightarrow> (\<exists>i<mx. message_accept (neg_literals t i) c)"
      by (auto simp: message_accept_concat)
    then show ?thesis unfolding l .
  qed
  then show ?thesis
    unfolding e by blast
qed

lemma or_subset_iff:
  "((p1 OR p2) AND c) = (p1 OR p2) \<longleftrightarrow> (p1 AND c) = p1 \<and> (p2 AND c) = p2" for c :: "32 word"
  by (auto simp: subset_bits_iff bit_or_iff)

lemma or_disjoint_iff:
  "((n1 OR n2) AND c) = 0 \<longleftrightarrow> (n1 AND c) = 0 \<and> (n2 AND c) = 0" for c :: "32 word"
  by (auto simp: disjoint_bits_iff bit_or_iff)

lemma contradictory_never_matches:
  "(p AND n) \<noteq> 0 \<Longrightarrow> \<not> ((p AND c) = p \<and> (n AND c) = 0)" for c :: "32 word"
  by (auto simp: subset_bits_iff disjoint_bits_iff)

lemma message_cri_mul_accept:
  "message_accept (message_cri_mul cri rhs) c \<longleftrightarrow> message_accept cri c \<and> message_accept rhs c"
proof -
  have "message_accept (message_cri_mul cri rhs) c \<longleftrightarrow>
        (\<exists>t1 \<in> set cri. \<exists>t2 \<in> set rhs.
           (positive t1 OR positive t2) AND (negative t1 OR negative t2) = 0
           \<and> ((positive t1 OR positive t2) AND c) = (positive t1 OR positive t2)
           \<and> ((negative t1 OR negative t2) AND c) = 0)"
    by (auto simp: message_cri_mul_def message_accept_iff Let_def split: if_splits)
  also have "\<dots> \<longleftrightarrow>
        (\<exists>t1 \<in> set cri. \<exists>t2 \<in> set rhs.
           ((positive t1 OR positive t2) AND c) = (positive t1 OR positive t2)
           \<and> ((negative t1 OR negative t2) AND c) = 0)"
    using contradictory_never_matches by blast
  also have "\<dots> \<longleftrightarrow> message_accept cri c \<and> message_accept rhs c"
    unfolding or_subset_iff or_disjoint_iff by (auto simp: message_accept_iff)
  finally show ?thesis .
qed

text \<open>
  Below the highest identifier \<^verbatim>\<open>message_cri_and_not\<close> is right: for a term whose
  categories all have identifiers below \<open>mx\<close>, the result accepts a category exactly
  when the criterion accepts it and the term does not match it.
\<close>

lemma message_cri_and_not_below_max:
  assumes "(positive t AND negative t) = 0"
    and "\<forall>i. (bit (positive t) i \<or> bit (negative t) i) \<longrightarrow> i < mx"
  shows "\<exists>r. message_cri_and_not mx cri t = Some r
           \<and> (\<forall>c. message_accept r c \<longleftrightarrow> message_accept cri c \<and> \<not> message_accept [t] c)"
proof -
  define s :: message_term where "s = \<lparr>positive = negative t, negative = positive t\<rparr>"
  have ds: "(positive s AND negative s) = 0"
    using assms(1) by (simp add: s_def and.commute)
  obtain n where n: "message_cri_neg mx s = Some n"
    and na: "\<And>c. message_accept n c \<longleftrightarrow>
                 (\<exists>i<mx. (bit (positive s) i \<and> bit c i) \<or> (bit (negative s) i \<and> \<not> bit c i))"
    using message_cri_neg_accept [OF ds, of mx] by blast
  have m: "message_accept n c \<longleftrightarrow> \<not> message_accept [t] c" for c
  proof -
    have "message_accept [t] c \<longleftrightarrow>
            (\<forall>i. bit (positive t) i \<longrightarrow> bit c i) \<and> (\<forall>i. \<not> (bit (negative t) i \<and> bit c i))"
      by (simp add: subset_bits_iff disjoint_bits_iff)
    moreover have "message_accept n c \<longleftrightarrow>
            (\<exists>i. (bit (negative t) i \<and> bit c i) \<or> (bit (positive t) i \<and> \<not> bit c i))"
      unfolding na using assms(2) by (auto simp: s_def)
    ultimately show ?thesis by blast
  qed
  have "message_cri_and_not mx cri t = Some (message_cri_mul cri n)"
    using n by (simp add: message_cri_and_not_def s_def)
  then show ?thesis
    using m by (simp add: message_cri_mul_accept)
qed

text \<open>
  Claim C5. Negating a term is meant to give one single-literal term for every category
  bit of the term, the highest-numbered category included, so that the result accepts a
  category exactly when the term does not match it. The loop of \<^verbatim>\<open>message_cri_neg\<close> stops
  before the highest identifier \<open>mx\<close>: for the term that consists of the category
  \<open>mx\<close> alone the result is the empty criterion, which accepts nothing, not even the
  empty category that the term does not match; and \<^verbatim>\<open>message_cri_and_not\<close> of any
  criterion and that term is the empty criterion too.
\<close>

theorem message_cri_neg_highest_category:
  "mx < 32 \<Longrightarrow>
   message_cri_neg mx \<lparr>positive = push_bit mx 1, negative = mc_none\<rparr> = Some []
   \<and> \<not> message_accept [\<lparr>positive = push_bit mx 1, negative = mc_none\<rparr>] mc_none
   \<and> \<not> message_accept [] mc_none
   \<and> message_cri_and_not mx cri \<lparr>positive = push_bit mx 1, negative = mc_none\<rparr> = Some []"
proof -
  assume mx: "mx < 32"
  define t :: message_term where "t = \<lparr>positive = push_bit mx 1, negative = mc_none\<rparr>"
  define t' :: message_term where "t' = \<lparr>positive = mc_none, negative = push_bit mx 1\<rparr>"
  have nz: "positive t \<noteq> 0"
    using mx by (simp add: t_def)
  have s: "\<forall>i \<in> set [0..<mx]. (positive t AND push_bit i 1) = 0 \<and> (negative t AND push_bit i 1) = 0"
    using push_bit_distinct_and [of mx] by (auto simp: t_def mc_none_def)
  have s': "\<forall>i \<in> set [0..<mx]. (positive t' AND push_bit i 1) = 0 \<and> (negative t' AND push_bit i 1) = 0"
    using push_bit_distinct_and [of mx] by (auto simp: t'_def mc_none_def)
  have d: "(positive t AND negative t) = 0" "(positive t' AND negative t') = 0"
    by (simp_all add: t_def t'_def mc_none_def)
  have 1: "message_cri_neg mx t = Some []"
    using d by (simp add: message_cri_neg_def fold_neg_step_skip [OF s])
  have n1: "message_cri_neg mx t' = Some []"
    using d by (simp add: message_cri_neg_def fold_neg_step_skip [OF s'])
  have 2: "\<not> message_accept [t] mc_none"
    using nz by (simp add: mc_none_def)
  have 3: "message_cri_and_not mx cri t = Some []"
    using n1 by (simp add: message_cri_and_not_def t_def t'_def message_cri_mul_empty)
  show ?thesis
    using 1 2 3 unfolding t_def by simp
qed

theorem message_cri_neg_highest_category_witness:
  "message_cri_neg 21 \<lparr>positive = push_bit 21 1, negative = mc_none\<rparr> = Some []
   \<and> \<not> message_accept [\<lparr>positive = push_bit 21 1, negative = mc_none\<rparr>] mc_none
   \<and> message_cri_and_not 21 [\<lparr>positive = mc_none, negative = mc_none\<rparr>]
         \<lparr>positive = push_bit 21 1, negative = mc_none\<rparr> = Some []"
  using message_cri_neg_highest_category [of 21 "[\<lparr>positive = mc_none, negative = mc_none\<rparr>]"] by simp
subsection \<open>Address records: binary search, insertion, membership\<close>

lemma find_loop_spec:
  assumes "sorted_wrt (<) ar" "a \<le> b" "b \<le> length ar"
    and "\<forall>i<a. ar ! i < x" and "\<forall>i. b \<le> i \<and> i < length ar \<longrightarrow> x < ar ! i"
  shows "let r = addr_record_find_loop ar x a b in
           r \<le> length ar \<and>
           ((r < length ar \<and> ar ! r = x) \<or>
            ((\<forall>i<r. ar ! i < x) \<and> (\<forall>i. r \<le> i \<and> i < length ar \<longrightarrow> x < ar ! i)))"
  using assms
proof (induction ar x a b rule: addr_record_find_loop.induct)
  case (1 ar x a b)
  show ?case
  proof (cases "a < b")
    case False
    then have ab: "a = b" using "1.prems" by simp
    have r: "addr_record_find_loop ar x a b = a"
      using False by (simp add: addr_record_find_loop.simps)
    show ?thesis unfolding r Let_def using "1.prems" ab by auto
  next
    case True
    define i where "i = (a + b) div 2"
    have i: "a \<le> i" "i < b" "i < length ar" using True "1.prems" by (auto simp: i_def)
    consider (gt) "ar ! i > x" | (lt) "ar ! i < x" | (eq) "ar ! i = x"
      by (meson linorder_neqE)
    then show ?thesis
    proof cases
      case gt
      have r: "addr_record_find_loop ar x a b = addr_record_find_loop ar x a i"
        using True gt by (subst addr_record_find_loop.simps) (simp add: i_def Let_def)
      have up: "\<forall>j. i \<le> j \<and> j < length ar \<longrightarrow> x < ar ! j"
      proof (intro allI impI)
        fix j assume j: "i \<le> j \<and> j < length ar"
        show "x < ar ! j"
        proof (cases "j = i")
          case True then show ?thesis using gt by simp
        next
          case False
          then have "ar ! i < ar ! j"
            using sorted_wrt_nth_less [OF "1.prems"(1), of i j] j by simp
          then show ?thesis using gt by simp
        qed
      qed
      show ?thesis
        unfolding r
        using "1.IH"(1) [OF True i_def refl gt "1.prems"(1) i(1) _ "1.prems"(4) up] i by simp
    next
      case lt
      have ngt: "\<not> ar ! i > x" using lt by simp
      have r: "addr_record_find_loop ar x a b = addr_record_find_loop ar x (i + 1) b"
        using True lt ngt by (subst addr_record_find_loop.simps) (simp add: i_def Let_def)
      have lo: "\<forall>j<i + 1. ar ! j < x"
      proof (intro allI impI)
        fix j assume j: "j < i + 1"
        show "ar ! j < x"
        proof (cases "j = i")
          case True then show ?thesis using lt by simp
        next
          case False
          then have "ar ! j < ar ! i"
            using sorted_wrt_nth_less [OF "1.prems"(1), of j i] j i by simp
          then show ?thesis using lt by simp
        qed
      qed
      show ?thesis
        unfolding r
        using "1.IH"(2) [OF True i_def refl ngt lt "1.prems"(1) _ "1.prems"(3) lo "1.prems"(5)] i by simp
    next
      case eq
      have r: "addr_record_find_loop ar x a b = i"
        using True eq by (subst addr_record_find_loop.simps) (simp add: i_def Let_def)
      show ?thesis unfolding r Let_def using i eq by simp
    qed
  qed
qed

lemma find_addr_spec:
  assumes "sorted_wrt (<) ar"
  shows "addr_record_find_addr ar x \<le> length ar"
    and "x \<in> set ar \<Longrightarrow> addr_record_find_addr ar x < length ar \<and> ar ! addr_record_find_addr ar x = x"
    and "x \<notin> set ar \<Longrightarrow> (\<forall>i<addr_record_find_addr ar x. ar ! i < x)
            \<and> (\<forall>i. addr_record_find_addr ar x \<le> i \<and> i < length ar \<longrightarrow> x < ar ! i)"
proof -
  let ?r = "addr_record_find_addr ar x"
  have s: "?r \<le> length ar \<and>
           ((?r < length ar \<and> ar ! ?r = x) \<or>
            ((\<forall>i<?r. ar ! i < x) \<and> (\<forall>i. ?r \<le> i \<and> i < length ar \<longrightarrow> x < ar ! i)))"
  proof -
    have p4: "\<forall>i<0. ar ! i < x" by simp
    have p5: "\<forall>i. length ar \<le> i \<and> i < length ar \<longrightarrow> x < ar ! i" by auto
    show ?thesis
      using find_loop_spec [OF assms _ _ p4 p5]
      by (simp add: addr_record_find_addr_def Let_def)
  qed
  show "?r \<le> length ar" using s by simp
  show "?r < length ar \<and> ar ! ?r = x" if mem: "x \<in> set ar"
  proof (rule ccontr)
    assume n: "\<not> (?r < length ar \<and> ar ! ?r = x)"
    then have nf: "(\<forall>i<?r. ar ! i < x) \<and> (\<forall>i. ?r \<le> i \<and> i < length ar \<longrightarrow> x < ar ! i)"
      using s by blast
    obtain k where k: "k < length ar" "ar ! k = x"
      using mem by (auto simp: in_set_conv_nth)
    show False
    proof (cases "k < ?r")
      case True
      then have "ar ! k < x" using nf by blast
      then show ?thesis using k by simp
    next
      case False
      then have "?r \<le> k \<and> k < length ar" using k by simp
      then have "x < ar ! k" using nf by blast
      then show ?thesis using k by simp
    qed
  qed
  show "(\<forall>i<?r. ar ! i < x) \<and> (\<forall>i. ?r \<le> i \<and> i < length ar \<longrightarrow> x < ar ! i)" if "x \<notin> set ar"
  proof -
    have "\<not> (?r < length ar \<and> ar ! ?r = x)"
      using that by (auto simp: in_set_conv_nth)
    then show ?thesis using s by blast
  qed
qed

lemma has_addr_iff:
  assumes "sorted_wrt (<) ar"
  shows "addr_record_has_addr ar x \<longleftrightarrow> x \<in> set ar"
proof (cases "x \<in> set ar")
  case True
  then obtain k where k: "k < length ar" "ar ! k = x"
    by (auto simp: in_set_conv_nth)
  have ne: "length ar \<noteq> 0" using k by auto
  have lo: "\<not> x < ar ! 0"
  proof (cases "k = 0")
    case True then show ?thesis using k by simp
  next
    case False
    then have "ar ! 0 < ar ! k" using sorted_wrt_nth_less [OF assms, of 0 k] k by simp
    then show ?thesis using k by simp
  qed
  have hi: "\<not> x > ar ! (length ar - 1)"
  proof (cases "k = length ar - 1")
    case True then show ?thesis using k by simp
  next
    case False
    then have "ar ! k < ar ! (length ar - 1)"
      using sorted_wrt_nth_less [OF assms, of k "length ar - 1"] k by simp
    then show ?thesis using k by simp
  qed
  show ?thesis
    using True ne lo hi find_addr_spec(2) [OF assms True]
    by (simp add: addr_record_has_addr_def Let_def)
next
  case False
  have "\<not> (addr_record_find_addr ar x < length ar \<and> ar ! addr_record_find_addr ar x = x)"
    using False by (auto simp: in_set_conv_nth)
  then show ?thesis
    using False by (auto simp: addr_record_has_addr_def Let_def)
qed

lemma add_spec:
  assumes "sorted_wrt (<) ar"
  shows "sorted_wrt (<) (addr_record_add ar x) \<and> set (addr_record_add ar x) = insert x (set ar)"
proof (cases "x \<in> set ar")
  case True
  then have "addr_record_add ar x = ar"
    using find_addr_spec(2) [OF assms True] by (simp add: addr_record_add_def Let_def)
  then show ?thesis using assms True by auto
next
  case False
  let ?r = "addr_record_find_addr ar x"
  have nf: "\<not> (?r < length ar \<and> ar ! ?r = x)"
    using False by (auto simp: in_set_conv_nth)
  have e: "addr_record_add ar x = take ?r ar @ [x] @ drop ?r ar"
    using nf by (auto simp: addr_record_add_def Let_def)
  have b: "(\<forall>i<?r. ar ! i < x)" "(\<forall>i. ?r \<le> i \<and> i < length ar \<longrightarrow> x < ar ! i)"
    using find_addr_spec(3) [OF assms False] by auto
  have le: "?r \<le> length ar" using find_addr_spec(1) [OF assms] .
  have t: "\<forall>y \<in> set (take ?r ar). y < x"
    using b(1) le by (auto simp: in_set_conv_nth)
  have d: "\<forall>y \<in> set (drop ?r ar). x < y"
    using b(2) le by (auto simp: in_set_conv_nth)
  have st: "sorted_wrt (<) (take ?r ar)" "sorted_wrt (<) (drop ?r ar)"
    using assms by simp_all
  have td: "\<forall>y \<in> set (take ?r ar). \<forall>z \<in> set (drop ?r ar). y < z"
    using t d by fastforce
  have "sorted_wrt (<) (take ?r ar @ [x] @ drop ?r ar)"
    using st t d td by (simp add: sorted_wrt_append)
  moreover have "set (take ?r ar @ [x] @ drop ?r ar) = insert x (set ar)"
  proof -
    have "set (take ?r ar) \<union> set (drop ?r ar) = set ar"
      by (metis append_take_drop_id set_append)
    then show ?thesis by auto
  qed
  ultimately show ?thesis unfolding e by simp
qed

lemma walk_dies_spec:
  assumes "sorted_wrt (<) (die_addrs c)"
  shows "sorted_wrt (<) (die_addrs (walk_dies ds c))
       \<and> set (die_addrs (walk_dies ds c)) = set (die_addrs c) \<union> (\<lambda>d. cu_offset c + d) ` set ds
       \<and> cu_offset (walk_dies ds c) = cu_offset c"
  using assms
proof (induction ds arbitrary: c)
  case Nil
  then show ?case by (simp add: walk_dies_def)
next
  case (Cons d ds)
  have s: "walk_dies (d # ds) c = walk_dies ds (record_die d c)"
    by (simp add: walk_dies_def)
  have 1: "sorted_wrt (<) (die_addrs (record_die d c))"
    and 2: "set (die_addrs (record_die d c)) = insert (cu_offset c + d) (set (die_addrs c))"
    and 3: "cu_offset (record_die d c) = cu_offset c"
    using add_spec [OF Cons.prems, of "cu_offset c + d"] by (simp_all add: record_die_def)
  show ?case
    unfolding s using Cons.IH [OF 1] by (auto simp: 2 3)
qed

lemma distinct_count_list:
  "distinct xs \<Longrightarrow> count_list xs x = (if x \<in> set xs then 1 else 0)"
  by (induction xs) auto

lemma walk_dies_example:
  "die_addrs (walk_dies [0x0b, 0x15, 0x0b, 0x10] (new_cu 0x100)) = [0x10b, 0x110, 0x115]"
  by (simp add: walk_dies_def record_die_def new_cu_def addr_record_add_def addr_record_find_addr_def
      addr_record_find_loop.simps Let_def)

text \<open>
  Claim C3. For every unit, \<^verbatim>\<open>die_addrs\<close> is sorted ascending and free of duplicates
  after every insertion: the record of a new unit is empty, and a walk over any DIEs
  keeps the two properties. After the walk the record holds, exactly once each, the
  absolute offsets (unit offset plus DIE offset) of the DIEs walked, besides what it held
  before, and \<^verbatim>\<open>addr_record_has_addr\<close> is true exactly for those addresses.
\<close>

theorem die_addrs_sorted_unique:
  assumes "sorted (die_addrs c) \<and> distinct (die_addrs c)"
  shows "sorted (die_addrs (walk_dies ds c)) \<and> distinct (die_addrs (walk_dies ds c))
       \<and> set (die_addrs (walk_dies ds c)) = set (die_addrs c) \<union> (\<lambda>d. cu_offset c + d) ` set ds
       \<and> (\<forall>d \<in> set ds. count_list (die_addrs (walk_dies ds c)) (cu_offset c + d) = 1)
       \<and> (\<forall>x. addr_record_has_addr (die_addrs (walk_dies ds c)) x
              \<longleftrightarrow> x \<in> set (die_addrs c) \<union> (\<lambda>d. cu_offset c + d) ` set ds)
       \<and> sorted (die_addrs (new_cu off)) \<and> distinct (die_addrs (new_cu off))"
proof -
  have s0: "sorted_wrt (<) (die_addrs c)"
    using assms by (simp add: strict_sorted_iff)
  note w = walk_dies_spec [OF s0, of ds]
  have s1: "sorted_wrt (<) (die_addrs (walk_dies ds c))" using w by simp
  have sd: "sorted (die_addrs (walk_dies ds c)) \<and> distinct (die_addrs (walk_dies ds c))"
    using s1 by (simp add: strict_sorted_iff)
  have st: "set (die_addrs (walk_dies ds c)) = set (die_addrs c) \<union> (\<lambda>d. cu_offset c + d) ` set ds"
    using w by simp
  have cnt: "\<forall>d \<in> set ds. count_list (die_addrs (walk_dies ds c)) (cu_offset c + d) = 1"
    using sd st by (simp add: distinct_count_list)
  have has: "\<forall>x. addr_record_has_addr (die_addrs (walk_dies ds c)) x
              \<longleftrightarrow> x \<in> set (die_addrs c) \<union> (\<lambda>d. cu_offset c + d) ` set ds"
    using has_addr_iff [OF s1] st by simp
  have n: "sorted (die_addrs (new_cu off)) \<and> distinct (die_addrs (new_cu off))"
    by (simp add: new_cu_def)
  show ?thesis using sd st cnt has n by blast
qed

theorem die_addrs_sorted_unique_witness:
  "die_addrs (walk_dies [0x0b, 0x15, 0x0b, 0x10] (new_cu 0x100)) = [0x10b, 0x110, 0x115]
   \<and> addr_record_has_addr (die_addrs (walk_dies [0x0b, 0x15, 0x0b, 0x10] (new_cu 0x100))) 0x110
   \<and> \<not> addr_record_has_addr (die_addrs (walk_dies [0x0b, 0x15, 0x0b, 0x10] (new_cu 0x100))) 0x111
   \<and> count_list (die_addrs (walk_dies [0x0b, 0x15, 0x0b, 0x10] (new_cu 0x100))) 0x10b = 1"
proof -
  have a: "sorted (die_addrs (new_cu 0x100)) \<and> distinct (die_addrs (new_cu 0x100))"
    by (simp add: new_cu_def)
  have o: "cu_offset (new_cu 0x100) = 0x100" "die_addrs (new_cu 0x100) = []"
    by (simp_all add: new_cu_def)
  show ?thesis
    using die_addrs_sorted_unique [OF a, of "[0x0b, 0x15, 0x0b, 0x10]"]
    by (simp add: o walk_dies_example)
qed

subsection \<open>The relocation cursor\<close>

lemma advance_simps [simp]:
  "rel (advance reloc) = rel reloc" "rel_kind (advance reloc) = rel_kind reloc"
  "rel_beyond (advance reloc) = rel_beyond reloc" "index (advance reloc) = Suc (index reloc)"
  by (simp_all add: advance_def)

lemma skip_site_advance: "skip_site (advance reloc) wh k = skip_site reloc wh k"
  by (simp add: skip_site_def advance_def)

lemma skip_line_advance: "skip_line (advance reloc) wh st k = skip_line reloc wh st k"
  by (simp add: skip_line_def skip_site_advance)

lemma loop_end:
  "\<not> index reloc < length (rel reloc)
   \<Longrightarrow> relocation_next_loop reloc off wh st g = Some (None, reloc, g)"
  by (subst relocation_next_loop.simps) simp

lemma loop_ahead:
  "index reloc < length (rel reloc) \<Longrightarrow> off < offset (rel reloc ! index reloc)
   \<Longrightarrow> relocation_next_loop reloc off wh st g = Some (None, reloc, g)"
  by (subst relocation_next_loop.simps) (simp add: Let_def)

lemma loop_invalid:
  "index reloc < length (rel reloc) \<Longrightarrow> \<not> off < offset (rel reloc ! index reloc)
   \<Longrightarrow> invalid (rel reloc ! index reloc)
   \<Longrightarrow> relocation_next_loop reloc off wh st g = relocation_next_loop (advance reloc) off wh st g"
  by (subst relocation_next_loop.simps) (simp add: Let_def advance_def)

lemma loop_before_report:
  "index reloc < length (rel reloc) \<Longrightarrow> \<not> off < offset (rel reloc ! index reloc)
   \<Longrightarrow> \<not> invalid (rel reloc ! index reloc) \<Longrightarrow> offset (rel reloc ! index reloc) < off
   \<Longrightarrow> st \<noteq> skip_ok \<Longrightarrow> where_fmt_asserts True (skip_site reloc wh (index reloc))
   \<Longrightarrow> relocation_next_loop reloc off wh st g =
       relocation_next_loop (advance reloc) off wh st
         (wr_error (Some (skip_site reloc wh (index reloc))) (skip_message st) g)"
  by (subst relocation_next_loop.simps) (simp add: Let_def advance_def skip_site_def)

lemma loop_before_abort:
  "index reloc < length (rel reloc) \<Longrightarrow> \<not> off < offset (rel reloc ! index reloc)
   \<Longrightarrow> \<not> invalid (rel reloc ! index reloc) \<Longrightarrow> offset (rel reloc ! index reloc) < off
   \<Longrightarrow> st \<noteq> skip_ok \<Longrightarrow> \<not> where_fmt_asserts True (skip_site reloc wh (index reloc))
   \<Longrightarrow> relocation_next_loop reloc off wh st g = None"
  by (subst relocation_next_loop.simps) (simp add: Let_def advance_def skip_site_def)

lemma loop_before_silent:
  "index reloc < length (rel reloc) \<Longrightarrow> \<not> off < offset (rel reloc ! index reloc)
   \<Longrightarrow> \<not> invalid (rel reloc ! index reloc) \<Longrightarrow> offset (rel reloc ! index reloc) < off
   \<Longrightarrow> st = skip_ok
   \<Longrightarrow> relocation_next_loop reloc off wh st g = relocation_next_loop (advance reloc) off wh st g"
  by (subst relocation_next_loop.simps) (simp add: Let_def advance_def)

lemma loop_found:
  "index reloc < length (rel reloc) \<Longrightarrow> \<not> off < offset (rel reloc ! index reloc)
   \<Longrightarrow> \<not> invalid (rel reloc ! index reloc) \<Longrightarrow> \<not> offset (rel reloc ! index reloc) < off
   \<Longrightarrow> relocation_next_loop reloc off wh st g = Some (Some (rel reloc ! index reloc), advance reloc, g)"
  by (subst relocation_next_loop.simps) (simp add: Let_def advance_def)

text \<open>An induction principle following the seven branches of the loop.\<close>

lemma loop_cases_induct [case_names End Ahead Invalid Report Abort Silent Found]:
  assumes "\<And>reloc g. \<not> index reloc < length (rel reloc) \<Longrightarrow> P reloc g"
    and "\<And>reloc g. index reloc < length (rel reloc) \<Longrightarrow> off < offset (rel reloc ! index reloc) \<Longrightarrow> P reloc g"
    and "\<And>reloc g. index reloc < length (rel reloc) \<Longrightarrow> \<not> off < offset (rel reloc ! index reloc)
           \<Longrightarrow> invalid (rel reloc ! index reloc) \<Longrightarrow> P (advance reloc) g \<Longrightarrow> P reloc g"
    and "\<And>reloc g. index reloc < length (rel reloc) \<Longrightarrow> \<not> off < offset (rel reloc ! index reloc)
           \<Longrightarrow> \<not> invalid (rel reloc ! index reloc) \<Longrightarrow> offset (rel reloc ! index reloc) < off
           \<Longrightarrow> st \<noteq> skip_ok \<Longrightarrow> where_fmt_asserts True (skip_site reloc wh (index reloc))
           \<Longrightarrow> P (advance reloc)
                 (wr_error (Some (skip_site reloc wh (index reloc))) (skip_message st) g)
           \<Longrightarrow> P reloc g"
    and "\<And>reloc g. index reloc < length (rel reloc) \<Longrightarrow> \<not> off < offset (rel reloc ! index reloc)
           \<Longrightarrow> \<not> invalid (rel reloc ! index reloc) \<Longrightarrow> offset (rel reloc ! index reloc) < off
           \<Longrightarrow> st \<noteq> skip_ok \<Longrightarrow> \<not> where_fmt_asserts True (skip_site reloc wh (index reloc))
           \<Longrightarrow> P reloc g"
    and "\<And>reloc g. index reloc < length (rel reloc) \<Longrightarrow> \<not> off < offset (rel reloc ! index reloc)
           \<Longrightarrow> \<not> invalid (rel reloc ! index reloc) \<Longrightarrow> offset (rel reloc ! index reloc) < off
           \<Longrightarrow> st = skip_ok \<Longrightarrow> P (advance reloc) g \<Longrightarrow> P reloc g"
    and "\<And>reloc g. index reloc < length (rel reloc) \<Longrightarrow> \<not> off < offset (rel reloc ! index reloc)
           \<Longrightarrow> \<not> invalid (rel reloc ! index reloc) \<Longrightarrow> \<not> offset (rel reloc ! index reloc) < off
           \<Longrightarrow> P reloc g"
  shows "P reloc g"
proof (induction "length (rel reloc) - index reloc" arbitrary: reloc g rule: less_induct)
  case less
  have IH: "P (advance reloc) g'" if "index reloc < length (rel reloc)" for g'
    by (rule less.hyps) (use that in simp)
  show ?case
  proof (cases "index reloc < length (rel reloc)")
    case False
    then show ?thesis by (rule assms(1))
  next
    case lt: True
    show ?thesis
    proof (cases "off < offset (rel reloc ! index reloc)")
      case True
      with lt show ?thesis by (rule assms(2))
    next
      case na: False
      show ?thesis
      proof (cases "invalid (rel reloc ! index reloc)")
        case True
        show ?thesis by (rule assms(3) [OF lt na True IH [OF lt]])
      next
        case v: False
        show ?thesis
        proof (cases "offset (rel reloc ! index reloc) < off")
          case b: True
          show ?thesis
          proof (cases "st = skip_ok")
            case True
            show ?thesis by (rule assms(6) [OF lt na v b True IH [OF lt]])
          next
            case r: False
            show ?thesis
            proof (cases "where_fmt_asserts True (skip_site reloc wh (index reloc))")
              case True
              show ?thesis by (rule assms(4) [OF lt na v b r True IH [OF lt]])
            next
              case False
              show ?thesis by (rule assms(5) [OF lt na v b r False])
            qed
          qed
        next
          case False
          show ?thesis by (rule assms(7) [OF lt na v False])
        qed
      qed
    qed
  qed
qed

lemma next_loop_frame:
  "relocation_next_loop reloc off wh st g = Some (res, rd, g')
   \<Longrightarrow> rel rd = rel reloc \<and> rel_kind rd = rel_kind reloc \<and> rel_beyond rd = rel_beyond reloc
       \<and> index reloc \<le> index rd
       \<and> (index reloc \<le> length (rel reloc) \<longrightarrow> index rd \<le> length (rel reloc))"
proof (induction reloc g rule: loop_cases_induct [where off = off and st = st and wh = wh])
  case (End reloc g)
  then show ?case by (auto simp: loop_end)
next
  case (Ahead reloc g)
  then show ?case by (auto simp: loop_ahead)
next
  case (Invalid reloc g)
  then show ?case by (simp add: loop_invalid)
next
  case (Report reloc g)
  then show ?case by (simp add: loop_before_report)
next
  case (Abort reloc g)
  then show ?case by (simp add: loop_before_abort)
next
  case (Silent reloc g)
  then show ?case by (simp add: loop_before_silent)
next
  case (Found reloc g)
  then show ?case by (auto simp: loop_found)
qed

lemma out_wr_error:
  "out (wr_error (Some wh) m g) = out g @ Diagnostic Sev_error (Some wh) m # chain_lines Sev_error (Some wh) g"
  by (simp add: wr_error_def out_wr_verror)

lemma skip_site_chain: "chain_lines sev (Some (skip_site reloc wh k)) g = []"
  by (simp add: chain_lines_def skip_site_def where_from_reloc_def WHERE_def)

lemma frame_wr_error:
  "warning_criteria (wr_error wh m g) = warning_criteria g"
  "error_criteria (wr_error wh m g) = error_criteria g"
  "show_refs (wr_error wh m g) = show_refs g"
  "error_count (wr_error wh m g) = error_count g + 1"
  by (simp_all add: wr_error_def wr_verror_def where_fmt_chain_def Let_def split: option.splits)

lemma next_loop_result:
  "relocation_next_loop reloc off wh st g = Some (res, rd, g')
   \<Longrightarrow> (case res of
      None \<Rightarrow>
        (\<forall>k. index reloc \<le> k \<and> k < index rd \<longrightarrow> invalid (rel reloc ! k) \<or> offset (rel reloc ! k) < off)
        \<and> (index rd < length (rel reloc) \<longrightarrow> off < offset (rel reloc ! index rd))
    | Some r \<Rightarrow>
        index reloc < index rd \<and> index rd \<le> length (rel reloc)
        \<and> r = rel reloc ! (index rd - 1) \<and> \<not> invalid r \<and> offset r = off
        \<and> (\<forall>k. index reloc \<le> k \<and> k < index rd - 1
              \<longrightarrow> invalid (rel reloc ! k) \<or> offset (rel reloc ! k) < off))"
proof (induction reloc g rule: loop_cases_induct [where off = off and st = st and wh = wh])
  case (End reloc g)
  then show ?case by (auto simp: loop_end)
next
  case (Ahead reloc g)
  then show ?case by (auto simp: loop_ahead)
next
  case (Invalid reloc g)
  have e: "relocation_next_loop (advance reloc) off wh st g = Some (res, rd, g')"
    using Invalid by (simp add: loop_invalid)
  have k: "Suc (index reloc) \<le> k \<or> k = index reloc" if "index reloc \<le> k" for k
    using that by auto
  show ?case
    using Invalid.IH [OF e] Invalid.hyps(3) next_loop_frame [OF e]
    by (auto split: option.splits dest!: k)
next
  case (Report reloc g)
  let ?g = "wr_error (Some (skip_site reloc wh (index reloc))) (skip_message st) g"
  have e: "relocation_next_loop (advance reloc) off wh st ?g = Some (res, rd, g')"
    using Report by (simp add: loop_before_report)
  have k: "Suc (index reloc) \<le> k \<or> k = index reloc" if "index reloc \<le> k" for k
    using that by auto
  show ?case
    using Report.IH [OF e] Report.hyps(4) next_loop_frame [OF e]
    by (auto split: option.splits dest!: k)
next
  case (Abort reloc g)
  then show ?case by (simp add: loop_before_abort)
next
  case (Silent reloc g)
  have e: "relocation_next_loop (advance reloc) off wh st g = Some (res, rd, g')"
    using Silent by (simp add: loop_before_silent)
  have k: "Suc (index reloc) \<le> k \<or> k = index reloc" if "index reloc \<le> k" for k
    using that by auto
  show ?case
    using Silent.IH [OF e] Silent.hyps(4) next_loop_frame [OF e]
    by (auto split: option.splits dest!: k)
next
  case (Found reloc g)
  then show ?case by (auto simp: loop_found)
qed

lemma next_loop_output:
  "relocation_next_loop reloc off wh st g = Some (res, rd, g')
   \<Longrightarrow> out g' = out g @ (if st = skip_ok then []
                          else map (skip_line reloc wh st) (skipped_before reloc off (index rd)))
     \<and> error_count g' = error_count g
          + (if st = skip_ok then 0 else of_nat (length (skipped_before reloc off (index rd))))
     \<and> warning_criteria g' = warning_criteria g
     \<and> error_criteria g' = error_criteria g
     \<and> show_refs g' = show_refs g"
proof (induction reloc g rule: loop_cases_induct [where off = off and st = st and wh = wh])
  case (End reloc g)
  then show ?case by (auto simp: loop_end skipped_before_def)
next
  case (Ahead reloc g)
  then show ?case by (auto simp: loop_ahead skipped_before_def)
next
  case (Invalid reloc g)
  have e: "relocation_next_loop (advance reloc) off wh st g = Some (res, rd, g')"
    using Invalid by (simp add: loop_invalid)
  have lt: "index reloc < index rd"
    using next_loop_frame [OF e] by simp
  have s: "skipped_before reloc off (index rd) = skipped_before (advance reloc) off (index rd)"
    using lt Invalid.hyps(3) by (simp add: skipped_before_def upt_conv_Cons)
  show ?case
    unfolding s using Invalid.IH [OF e] by (simp add: skip_line_advance)
next
  case (Report reloc g)
  let ?g = "wr_error (Some (skip_site reloc wh (index reloc))) (skip_message st) g"
  have e: "relocation_next_loop (advance reloc) off wh st ?g = Some (res, rd, g')"
    using Report by (simp add: loop_before_report)
  have lt: "index reloc < index rd"
    using next_loop_frame [OF e] by simp
  have s: "skipped_before reloc off (index rd) = index reloc # skipped_before (advance reloc) off (index rd)"
    using lt Report.hyps(3,4) by (simp add: skipped_before_def upt_conv_Cons)
  have l: "Diagnostic Sev_error (Some (skip_site reloc wh (index reloc))) (skip_message st)
             = skip_line reloc wh st (index reloc)"
    by (simp add: skip_line_def)
  show ?case
    unfolding s using Report.IH [OF e] Report.hyps(5)
    by (simp add: skip_line_advance out_wr_error skip_site_chain frame_wr_error l)
next
  case (Abort reloc g)
  then show ?case by (simp add: loop_before_abort)
next
  case (Silent reloc g)
  have e: "relocation_next_loop (advance reloc) off wh st g = Some (res, rd, g')"
    using Silent by (simp add: loop_before_silent)
  show ?case
    using Silent.IH [OF e] Silent.hyps(5) by simp
next
  case (Found reloc g)
  then show ?case by (auto simp: loop_found skipped_before_def upt_conv_Cons)
qed

lemma relocation_next_eq_loop:
  "relocation_next reloc off wh st g = relocation_next_loop reloc off wh st g"
  by (simp add: relocation_next_def loop_end)

lemma sorted_offsets_nth:
  assumes "sorted (map offset rs)" "i \<le> j" "j < length rs"
  shows "offset (rs ! i) \<le> offset (rs ! j)"
  using sorted_nth_mono [OF assms(1), of i j] assms(2,3) by simp

lemma next_loop_rest:
  assumes "sorted (map offset (rel reloc))"
    and "relocation_next_loop reloc off wh st g = Some (res, rd, g')"
    and "index rd \<le> k" "k < length (rel reloc)"
  shows "if res = None then off < offset (rel reloc ! k) else off \<le> offset (rel reloc ! k)"
proof (cases res)
  case None
  have "off < offset (rel reloc ! index rd)"
    using next_loop_result [OF assms(2)] None assms(3,4) by simp
  moreover have "offset (rel reloc ! index rd) \<le> offset (rel reloc ! k)"
    using sorted_offsets_nth [OF assms(1), of "index rd" k] assms(3,4) by simp
  ultimately show ?thesis using None by simp
next
  case (Some e)
  have e: "index reloc < index rd" "e = rel reloc ! (index rd - 1)" "offset e = off"
    using next_loop_result [OF assms(2)] Some by auto
  have "index rd - 1 \<le> k" using assms(3) by arith
  then have "offset (rel reloc ! (index rd - 1)) \<le> offset (rel reloc ! k)"
    using sorted_offsets_nth [OF assms(1), of "index rd - 1" k] assms(4) by blast
  then show ?thesis using Some e by simp
qed

lemma ex_from_Suc:
  "\<not> Q i \<Longrightarrow> (\<exists>k. i \<le> k \<and> Q k) \<longleftrightarrow> (\<exists>k. Suc i \<le> k \<and> Q k)"
  by (metis Suc_leD Suc_leI order_le_less)

text \<open>
  When the entries are sorted, the process is stopped exactly when a line is to be
  printed for an entry whose site fails the assertions of \<^verbatim>\<open>where_fmt\<close>.
\<close>

lemma next_loop_abort_iff:
  "sorted (map offset (rel reloc))
   \<Longrightarrow> relocation_next_loop reloc off wh st g = None
       \<longleftrightarrow> st \<noteq> skip_ok
           \<and> (\<exists>k. index reloc \<le> k \<and> (k < length (rel reloc) \<and> \<not> invalid (rel reloc ! k)
                  \<and> offset (rel reloc ! k) < off \<and> \<not> where_fmt_asserts True (skip_site reloc wh k)))"
proof (induction reloc g rule: loop_cases_induct [where off = off and st = st and wh = wh])
  case (End reloc g)
  then show ?case by (auto simp: loop_end)
next
  case (Ahead reloc g)
  have "\<not> offset (rel reloc ! k) < off" if "index reloc \<le> k" "k < length (rel reloc)" for k
    using sorted_offsets_nth [OF Ahead.prems that] Ahead.hyps(2) by auto
  then show ?case using Ahead.hyps by (auto simp: loop_ahead)
next
  case (Invalid reloc g)
  have e: "relocation_next_loop reloc off wh st g = relocation_next_loop (advance reloc) off wh st g"
    using Invalid.hyps by (simp add: loop_invalid)
  show ?case
    unfolding e using Invalid.IH Invalid.prems
    by (subst ex_from_Suc) (simp_all add: Invalid.hyps(3) skip_site_advance)
next
  case (Report reloc g)
  have e: "relocation_next_loop reloc off wh st g = relocation_next_loop (advance reloc) off wh st
          (wr_error (Some (skip_site reloc wh (index reloc))) (skip_message st) g)"
    using Report.hyps by (simp add: loop_before_report)
  show ?case
    unfolding e using Report.IH Report.prems
    by (subst ex_from_Suc) (simp_all add: Report.hyps(6) skip_site_advance)
next
  case (Abort reloc g)
  then show ?case by (auto simp: loop_before_abort)
next
  case (Silent reloc g)
  have "relocation_next_loop reloc off wh st g = relocation_next_loop (advance reloc) off wh st g"
    using Silent.hyps by (simp add: loop_before_silent)
  then show ?case
    using Silent.IH Silent.prems Silent.hyps(5) by simp
next
  case (Found reloc g)
  have "\<not> offset (rel reloc ! k) < off" if "index reloc \<le> k" "k < length (rel reloc)" for k
    using sorted_offsets_nth [OF Found.prems that] Found.hyps(4) by auto
  then show ?case using Found.hyps by (auto simp: loop_found)
qed

text \<open>
  The assertions for the site of a skipped entry, in terms of the data: the offset in
  the slot after the entry is not \<open>2 ^ 64 - 1\<close>, and a referring site in a location
  expression has an enclosing site that is not one.
\<close>

lemma skip_site_asserts:
  assumes "offset (rel reloc ! k) \<noteq> - 1"
  shows "where_fmt_asserts True (skip_site reloc wh k)
     \<longleftrightarrow> (if Suc k < length (rel reloc) then offset (rel reloc ! Suc k) else rel_beyond reloc) \<noteq> - 1
         \<and> (w_section wh = sec_locexpr
              \<longrightarrow> (\<exists>nx. w_next wh = Some nx \<and> w_section nx \<noteq> sec_locexpr))"
  using assms
  by (auto simp: skip_site_def where_from_reloc_def WHERE_def split: option.splits)

lemma line_key_skip_line:
  "line_key (skip_line reloc wh st k) = (Sev_error, skip_message st, Some (offset (rel reloc ! k)))"
  by (simp add: line_key_def skip_line_def skip_site_def where_from_reloc_def WHERE_def)

text \<open>
  Claim C2, as the code has it. The claim says that after \<^verbatim>\<open>relocation_next\<close> the cursor
  stands at the first entry whose offset is not below the offset asked for. The code
  moves the cursor past every entry it looks at, the returned one included. For sorted
  entries and a call from index \<open>i\<close>: the call returns unless a line is to be printed
  (the skip type is not \<^verbatim>\<open>skip_ok\<close>) for a valid entry before the offset whose site fails
  the assertions of \<^verbatim>\<open>where_fmt\<close>, which stops the process. When the call returns with
  the index at \<open>i'\<close>: the array is unchanged and \<open>i \<le> i'\<close>; if nothing is returned,
  every entry of \<open>[i, i')\<close> is invalid or lies before the offset, and every entry from
  \<open>i'\<close> on lies after the offset; if an entry is returned, it is the entry at
  \<open>i' - 1\<close>, it is valid and lies exactly at the offset, every entry of \<open>[i, i' - 1)\<close>
  is invalid or lies before the offset, and no entry from \<open>i'\<close> on lies before the
  offset. One error line is printed for each valid entry skipped before the offset,
  with the text of the skip type and the entry's offset as second key, and none when
  the skip type is \<^verbatim>\<open>skip_ok\<close>; invalid entries are skipped without a line.
\<close>

theorem relocation_next_cursor:
  assumes "sorted (map offset (rel reloc))"
  shows "(relocation_next reloc off wh st g = None
          \<longleftrightarrow> st \<noteq> skip_ok
              \<and> (\<exists>k. index reloc \<le> k \<and> (k < length (rel reloc) \<and> \<not> invalid (rel reloc ! k)
                     \<and> offset (rel reloc ! k) < off
                     \<and> \<not> where_fmt_asserts True (skip_site reloc wh k))))
    \<and> (\<forall>res reloc' g'. relocation_next reloc off wh st g = Some (res, reloc', g') \<longrightarrow>
          rel reloc' = rel reloc \<and> index reloc \<le> index reloc'
        \<and> (index reloc \<le> length (rel reloc) \<longrightarrow> index reloc' \<le> length (rel reloc))
        \<and> (case res of
              None \<Rightarrow>
                (\<forall>k. index reloc \<le> k \<and> k < index reloc'
                      \<longrightarrow> invalid (rel reloc ! k) \<or> offset (rel reloc ! k) < off)
                \<and> (\<forall>k. index reloc' \<le> k \<and> k < length (rel reloc) \<longrightarrow> off < offset (rel reloc ! k))
            | Some r \<Rightarrow>
                index reloc < index reloc' \<and> index reloc' \<le> length (rel reloc)
                \<and> r = rel reloc ! (index reloc' - 1) \<and> \<not> invalid r \<and> offset r = off
                \<and> (\<forall>k. index reloc \<le> k \<and> k < index reloc' - 1
                      \<longrightarrow> invalid (rel reloc ! k) \<or> offset (rel reloc ! k) < off)
                \<and> (\<forall>k. index reloc' \<le> k \<and> k < length (rel reloc) \<longrightarrow> off \<le> offset (rel reloc ! k)))
        \<and> map line_key (drop (length (out g)) (out g'))
            = (if st = skip_ok then []
               else map (\<lambda>k. (Sev_error, skip_message st, Some (offset (rel reloc ! k))))
                      (skipped_before reloc off (index reloc'))))"
proof (intro conjI allI impI)
  show "relocation_next reloc off wh st g = None
          \<longleftrightarrow> st \<noteq> skip_ok
              \<and> (\<exists>k. index reloc \<le> k \<and> (k < length (rel reloc) \<and> \<not> invalid (rel reloc ! k)
                     \<and> offset (rel reloc ! k) < off
                     \<and> \<not> where_fmt_asserts True (skip_site reloc wh k)))"
    unfolding relocation_next_eq_loop by (rule next_loop_abort_iff [OF assms])
next
  fix res reloc' g'
  assume "relocation_next reloc off wh st g = Some (res, reloc', g')"
  then have e: "relocation_next_loop reloc off wh st g = Some (res, reloc', g')"
    by (simp add: relocation_next_eq_loop)
  note f = next_loop_frame [OF e]
  note r = next_loop_result [OF e]
  note o = next_loop_output [OF e]
  note t = next_loop_rest [OF assms e]
  show "rel reloc' = rel reloc" "index reloc \<le> index reloc'"
    using f by simp_all
  show "index reloc' \<le> length (rel reloc)" if "index reloc \<le> length (rel reloc)"
    using f that by simp
  show "map line_key (drop (length (out g)) (out g'))
        = (if st = skip_ok then []
           else map (\<lambda>k. (Sev_error, skip_message st, Some (offset (rel reloc ! k))))
                  (skipped_before reloc off (index reloc')))"
    using o by (simp add: line_key_skip_line)
  show "(case res of
          None \<Rightarrow>
            (\<forall>k. index reloc \<le> k \<and> k < index reloc'
                  \<longrightarrow> invalid (rel reloc ! k) \<or> offset (rel reloc ! k) < off)
            \<and> (\<forall>k. index reloc' \<le> k \<and> k < length (rel reloc) \<longrightarrow> off < offset (rel reloc ! k))
        | Some r \<Rightarrow>
            index reloc < index reloc' \<and> index reloc' \<le> length (rel reloc)
            \<and> r = rel reloc ! (index reloc' - 1) \<and> \<not> invalid r \<and> offset r = off
            \<and> (\<forall>k. index reloc \<le> k \<and> k < index reloc' - 1
                  \<longrightarrow> invalid (rel reloc ! k) \<or> offset (rel reloc ! k) < off)
            \<and> (\<forall>k. index reloc' \<le> k \<and> k < length (rel reloc) \<longrightarrow> off \<le> offset (rel reloc ! k)))"
  proof (cases res)
    case None
    then show ?thesis using r t by simp
  next
    case (Some x)
    then show ?thesis using r t by auto
  qed
qed

lemma reloc_of_simps:
  "rel (reloc_of rs) = rs" "index (reloc_of rs) = 0" "rel_kind (reloc_of rs) = SHT_RELA"
  "offset (rel_entry a b) = a" "invalid (rel_entry a b) = b"
  by (simp_all add: reloc_of_def rel_entry_def)

lemmas eval_reloc = relocation_next_def relocation_next_loop.simps rel_entry_def reloc_of_def
  Let_def wr_error_def wr_verror_def where_fmt_chain_def where_from_reloc_def WHERE_def
  quiet_globals_def initial_globals_def

text \<open>
  The claim as stated fails: with the single valid entry at offset \<open>5\<close>, a call for
  offset \<open>5\<close> returns the entry and leaves the cursor at \<open>1\<close>, past the first entry
  whose offset is not below \<open>5\<close>.
\<close>

theorem relocation_next_cursor_counterexample:
  "relocation_next (reloc_of [rel_entry 5 False]) 5 (WHERE sec_info None) skip_ok quiet_globals
     = Some (Some (rel_entry 5 False), (reloc_of [rel_entry 5 False])\<lparr>index := 1\<rparr>, quiet_globals)
   \<and> \<not> points_at_first_not_below [rel_entry 5 False] 5 1
   \<and> points_at_first_not_below [rel_entry 5 False] 5 0"
  by (simp add: eval_reloc points_at_first_not_below_def)

lemma relocation_next_example:
  "relocation_next (reloc_of [rel_entry 1 False, rel_entry 2 True, rel_entry 5 False, rel_entry 9 False])
      5 (WHERE sec_info None) skip_unref quiet_globals
   = Some (Some (rel_entry 5 False),
      (reloc_of [rel_entry 1 False, rel_entry 2 True, rel_entry 5 False, rel_entry 9 False])\<lparr>index := 3\<rparr>,
      quiet_globals\<lparr>error_count := 1,
        out := [Diagnostic Sev_error (Some (Where sec_rela 2 1 (- 1) (Some (WHERE sec_info None)) None))
                  '': relocation targets unreferenced portion of the section.'']\<rparr>)"
  by (simp add: eval_reloc)

text \<open>
  The process stopped: the entries at \<open>5\<close> and \<open>2 ^ 64 - 1\<close> are sorted; a call for
  \<open>2 ^ 64 - 1\<close> that reports skipped entries forms the site of the entry at \<open>5\<close> with
  the offset of the entry after it as first key, which \<^verbatim>\<open>where_fmt\<close> takes for "absent"
  beside a second key that is present.
\<close>

lemma relocation_next_stops:
  "sorted (map offset [rel_entry 5 False, rel_entry (- 1) False])
   \<and> relocation_next (reloc_of [rel_entry 5 False, rel_entry (- 1) False]) (- 1)
        (WHERE sec_info None) skip_mismatched quiet_globals = None"
  by (simp add: eval_reloc)

theorem relocation_next_cursor_witness:
  "sorted (map offset [rel_entry 1 False, rel_entry 2 True, rel_entry 5 False, rel_entry 9 False])
   \<and> relocation_next (reloc_of [rel_entry 1 False, rel_entry 2 True, rel_entry 5 False, rel_entry 9 False])
        5 (WHERE sec_info None) skip_unref quiet_globals \<noteq> None
   \<and> map line_key (drop (length (out quiet_globals))
        (out (snd (snd (the (relocation_next
           (reloc_of [rel_entry 1 False, rel_entry 2 True, rel_entry 5 False, rel_entry 9 False])
           5 (WHERE sec_info None) skip_unref quiet_globals))))))
       = [(Sev_error, '': relocation targets unreferenced portion of the section.'', Some 1)]
   \<and> index (fst (snd (the (relocation_next
        (reloc_of [rel_entry 1 False, rel_entry 2 True, rel_entry 5 False, rel_entry 9 False])
        5 (WHERE sec_info None) skip_unref quiet_globals)))) = 3
   \<and> where_fmt_asserts True
        (skip_site (reloc_of [rel_entry 1 False, rel_entry 2 True, rel_entry 5 False, rel_entry 9 False])
           (WHERE sec_info None) 0)"
proof -
  have s: "sorted (map offset (rel (reloc_of [rel_entry 1 False, rel_entry 2 True, rel_entry 5 False, rel_entry 9 False])))"
    by (simp add: rel_entry_def reloc_of_def)
  have sk: "skipped_before (reloc_of [rel_entry 1 False, rel_entry 2 True, rel_entry 5 False, rel_entry 9 False]) 5 3 = [0]"
    by (simp add: skipped_before_def reloc_of_def rel_entry_def upt_conv_Cons)
  have a: "where_fmt_asserts True
        (skip_site (reloc_of [rel_entry 1 False, rel_entry 2 True, rel_entry 5 False, rel_entry 9 False])
           (WHERE sec_info None) 0)"
    by (simp add: skip_site_def where_from_reloc_def WHERE_def reloc_of_def rel_entry_def)
  show ?thesis
    using relocation_next_cursor [OF s, of 5 "WHERE sec_info None" skip_unref quiet_globals] s a
    unfolding relocation_next_example
    by (simp add: sk reloc_of_simps)
qed

lemma next_loop_index_bound:
  "relocation_next_loop reloc off wh st g = Some (res, rd, g')
   \<Longrightarrow> index rd \<le> max (index reloc) (length (rel reloc))"
  using next_loop_frame [of reloc off wh st g res rd g'] loop_end [of reloc off wh st g]
  by (cases "index reloc \<le> length (rel reloc)") auto

text \<open>
  When the entries are sorted by offset and \<^verbatim>\<open>relocation_skip_rest\<close> has returned, a
  second \<^verbatim>\<open>relocation_skip_rest\<close> returns too, and it prints nothing and counts nothing.
\<close>

lemma skip_rest_twice_sorted:
  assumes "sorted (map offset (rel (sec_rel s)))"
    and "relocation_skip_rest s g = Some (s1, g1)"
  shows "\<exists>s2. relocation_skip_rest s1 g1 = Some (s2, g1)"
proof (cases "rel (sec_rel s) = []")
  case True
  then show ?thesis using assms(2) by (auto simp: relocation_skip_rest_def)
next
  case False
  let ?wh = "WHERE (sec_id s) None"
  obtain res rd where e: "relocation_next_loop (sec_rel s) (- 1) ?wh skip_mismatched g = Some (res, rd, g1)"
    and s1: "s1 = s\<lparr>sec_rel := rd\<rparr>"
    using assms(2) False
    by (auto simp: relocation_skip_rest_def relocation_next_eq_loop split: option.splits)
  note f = next_loop_frame [OF e]
  have rest: "\<not> offset (rel rd ! k) < - 1" if "index rd \<le> k" "k < length (rel rd)" for k
  proof -
    have "- 1 \<le> offset (rel (sec_rel s) ! k)"
      using next_loop_rest [OF assms(1) e, of k] that f by (auto split: if_splits)
    then show ?thesis using f by simp
  qed
  have sorted1: "sorted (map offset (rel rd))"
    using assms(1) f by simp
  have no_stop: "relocation_next_loop rd (- 1) ?wh skip_mismatched g1 \<noteq> None"
    using next_loop_abort_iff [OF sorted1, of "- 1" ?wh skip_mismatched g1] rest by blast
  then obtain res2 rd2 g2 where e2: "relocation_next_loop rd (- 1) ?wh skip_mismatched g1 = Some (res2, rd2, g2)"
    by (cases "relocation_next_loop rd (- 1) ?wh skip_mismatched g1") auto
  note o2 = next_loop_output [OF e2]
  have b2: "index rd2 \<le> max (index rd) (length (rel rd))"
    by (rule next_loop_index_bound [OF e2])
  have "skipped_before rd (- 1) (index rd2) = []"
    unfolding skipped_before_def filter_empty_conv
  proof
    fix k assume "k \<in> set [index rd..<index rd2]"
    then have "index rd \<le> k" "k < length (rel rd)" using b2 by auto
    then show "\<not> (\<not> invalid (rel rd ! k) \<and> offset (rel rd ! k) < - 1)"
      using rest by blast
  qed
  then have "out g2 = out g1" "error_count g2 = error_count g1"
    "warning_criteria g2 = warning_criteria g1" "error_criteria g2 = error_criteria g1"
    "show_refs g2 = show_refs g1"
    using o2 by simp_all
  then have "g2 = g1" by simp
  then show ?thesis
    using False f e2 by (simp add: s1 relocation_skip_rest_def relocation_next_eq_loop)
qed

lemma skip_rest_first:
  "relocation_skip_rest (sec_of [rel_entry (- 1) False, rel_entry 5 False]) quiet_globals
     = Some ((sec_of [rel_entry (- 1) False, rel_entry 5 False])
          \<lparr>sec_rel := (reloc_of [rel_entry (- 1) False, rel_entry 5 False])\<lparr>index := 1\<rparr>\<rparr>, quiet_globals)"
  by (simp add: relocation_skip_rest_def sec_of_def eval_reloc)

text \<open>
  Claim C9. A second \<^verbatim>\<open>relocation_skip_rest\<close> is meant to print nothing, whatever the
  relocation list holds. \<^verbatim>\<open>relocation_skip_rest\<close> drains the list by asking for the offset
  \<open>2 ^ 64 - 1\<close>, and a valid entry at exactly that offset is returned as a match, which
  ends the call. For the two valid entries at \<open>2 ^ 64 - 1\<close> and \<open>5\<close>, which the
  comparison function of \<^verbatim>\<open>read_rel\<close> orders in this way (it finds the entry at \<open>5\<close>
  greater), the first call prints nothing and stops after the first entry; the second
  call prints "relocation is mismatched" for the entry at \<open>5\<close>.
\<close>

theorem skip_rest_twice_unsorted:
  "compare (rel_entry 5 False) (rel_entry (- 1) False) = 6
   \<and> compare (rel_entry (- 1) False) (rel_entry 5 False) = - 6
   \<and> relocation_skip_rest (sec_of [rel_entry (- 1) False, rel_entry 5 False]) quiet_globals
       = Some ((sec_of [rel_entry (- 1) False, rel_entry 5 False])
            \<lparr>sec_rel := (reloc_of [rel_entry (- 1) False, rel_entry 5 False])\<lparr>index := 1\<rparr>\<rparr>,
          quiet_globals)
   \<and> map_option (\<lambda>(s, g). out g)
       (relocation_skip_rest
          ((sec_of [rel_entry (- 1) False, rel_entry 5 False])
             \<lparr>sec_rel := (reloc_of [rel_entry (- 1) False, rel_entry 5 False])\<lparr>index := 1\<rparr>\<rparr>)
          quiet_globals)
      = Some [Diagnostic Sev_error (Some (Where sec_rela 0 5 (- 1) (Some (WHERE sec_info None)) None))
                '': relocation is mismatched.'']"
  by (simp add: skip_rest_first compare_def)
     (simp add: relocation_skip_rest_def sec_of_def eval_reloc)
subsection \<open>Loading abbreviations\<close>

text \<open>
  Claim C6. A second abbreviation with a code that is already in its table is meant to
  give exactly one error and not to be stored, and the closing sort is meant to leave
  every table sorted by code. \<^verbatim>\<open>abbrev_table_load\<close> looks the code up with the binary
  search of \<^verbatim>\<open>abbrev_table_find_abbrev\<close> in the table as loaded so far, which is in the
  order of the section and sorted only at the end. For a table with the codes \<open>2, 1, 2\<close>
  in this order nothing is printed, the second abbreviation with code \<open>2\<close> is stored,
  and the sorted table holds the code \<open>2\<close> twice. (With the codes \<open>1, 2, 2\<close> the
  duplicate is reported.)
\<close>

theorem duplicate_code_not_reported:
  "emitted (\<lambda>g. snd (abbrev_table_load_one 0 [abbrev_at 2 0, abbrev_at 1 5, abbrev_at 2 10] g)) quiet_globals = []
   \<and> map code (abbr (fst (abbrev_table_load_one 0 [abbrev_at 2 0, abbrev_at 1 5, abbrev_at 2 10] quiet_globals)))
       = [2, 1, 2]
   \<and> map code (abbr (abbrev_table_sort
        (fst (abbrev_table_load_one 0 [abbrev_at 2 0, abbrev_at 1 5, abbrev_at 2 10] quiet_globals))))
       = [1, 2, 2]
   \<and> emitted (\<lambda>g. snd (abbrev_table_load_one 0 [abbrev_at 1 0, abbrev_at 2 5, abbrev_at 2 10] g)) quiet_globals
       = [Diagnostic Sev_error (Some (ab_where (abbrev_at 2 10)))
            '': duplicate abbrev code %ld; already defined at %s.'']"
  by code_simp
subsection \<open>Address sizes of the compilation units\<close>















subsection \<open>References to location and range lists\<close>

lemma grows_refl [simp]: "grows g g"
  by (simp add: grows_def)

lemma grows_trans: "grows g g' \<Longrightarrow> grows g' g'' \<Longrightarrow> grows g g''"
  by (auto simp: grows_def)


lemma grows_wr_message [simp]: "grows g (wr_message cat wh m g)"
  by (simp add: grows_def wr_message_def out_wr_verror out_wr_vwarning)


lemma grows_wr_message_trans: "grows g g' \<Longrightarrow> grows g (wr_message cat wh m g')"
  by (rule grows_trans [OF _ grows_wr_message])












lemma grows_check_range_relocations [simp]:
  "grows g (check_range_relocations cat wh b e g)"
  by (simp add: check_range_relocations_def split: option.splits)















subsection \<open>Location expressions\<close>

text \<open>
  When \<^verbatim>\<open>check_location_expression\<close> returns, it returns false exactly when the declared
  length of the expression exceeds the bytes left in the enclosing cursor, and it then
  has printed the one error "not enough data".
\<close>

lemma check_location_expression_returns:
  assumes "rc_begin parent_ctx \<le> rc_ptr parent_ctx \<and> rc_ptr parent_ctx \<le> rc_end parent_ctx"
    and "check_location_expression env parent_ctx init_off reloc len wh addr_64 g = Some (ok, rd, g')"
  shows "(\<not> ok \<longleftrightarrow> len > rc_end parent_ctx - rc_ptr parent_ctx)
       \<and> (\<not> ok \<longrightarrow> rd = reloc \<and> g' = wr_error (Some wh) '': not enough data for %s.'' g)"
  using assms
  by (auto simp: check_location_expression_def read_ctx_init_sub_def Let_def
      split: option.splits if_splits)

text \<open>
  Expressions with one defect each, with the operand forms of \<open>example_env\<close> and without
  relocations: the check returns true and has printed one error.
\<close>

lemma ex_unknown_opcode:
  "check_location_expression example_env (ctx_of [0xff]) 0 None 1 expr_site False quiet_globals
   = Some (True, None, quiet_globals\<lparr>error_count := 1,
        out := [Diagnostic Sev_error (Some (opcode_site 0)) '': can't decode opcode \"%s\".'']\<rparr>)"
  by code_simp

lemma ex_unreadable_operand:
  "check_location_expression example_env (ctx_of [0x08]) 0 None 1 expr_site False quiet_globals
   = Some (True, None, quiet_globals\<lparr>error_count := 1,
        out := [Diagnostic Sev_error (Some (opcode_site 0))
                  '': opcode \"%s\": can't read 1st operand (form \"%s\").'']\<rparr>)"
  by code_simp

lemma ex_branch_outside:
  "check_location_expression example_env (ctx_of [0x2f, 0x05, 0x00]) 0 None 3 expr_site False quiet_globals
   = Some (True, None, quiet_globals\<lparr>error_count := 1,
        out := [Diagnostic Sev_error (Some (opcode_site 0))
                  '': %s branches out of location expression.'']\<rparr>)"
  by code_simp

lemma ex_branch_before:
  "check_location_expression example_env (ctx_of [0x2f, 0xfb, 0xff, 0x08, 0x07]) 0 None 5 expr_site False quiet_globals
   = Some (True, None, quiet_globals\<lparr>error_count := 1,
        out := [Diagnostic Sev_error (Some (opcode_site 0))
                  '': %s branches before the beginning of location expression.'']\<rparr>)"
  by code_simp

lemma ex_branch_into_operand:
  "check_location_expression example_env (ctx_of [0x2f, 0x01, 0x00, 0x08, 0x07]) 0 None 5 expr_site False quiet_globals
   = Some (True, None, quiet_globals\<lparr>error_count := 1,
        out := [Diagnostic Sev_error (Some (opcode_site 0))
                  '': unresolved reference to opcode at %#lx.'']\<rparr>)"
  by code_simp

lemma ex_branch_back:
  "check_location_expression example_env (ctx_of [0x08, 0x07, 0x2f, 0xfe, 0xff]) 0 None 5 expr_site False quiet_globals
   = Some (True, None, quiet_globals)"
  by code_simp

lemma ex_too_long:
  "check_location_expression example_env (ctx_of [0x12, 0x12, 0x12]) 0 None 5 expr_site False quiet_globals
   = Some (False, None, quiet_globals\<lparr>error_count := 1,
        out := [Diagnostic Sev_error (Some expr_site) '': not enough data for %s.'']\<rparr>)"
  by code_simp


end
